theory Spec2Isabelle
  imports Complex_Main "HOL-Library.Sublist"
begin

section \<open>Python strings and integers\<close>

text \<open>
  The script \<^verbatim>\<open>azure/resource-count-azure.py\<close> works on Python strings and unbounded
  integers. A string is modelled as a list of characters whose code points lie below 256;
  an integer is an \<^typ>\<open>int\<close>. The string methods the script calls are written out here
  for that range of code points.
\<close>

definition py_lower_char :: "char \<Rightarrow> char" where
  "py_lower_char c =
     (let n = (of_char c :: nat)
      in if (65 \<le> n \<and> n \<le> 90) \<or> (192 \<le> n \<and> n \<le> 222 \<and> n \<noteq> 215)
         then char_of (n + 32) else c)"

definition lower :: "string \<Rightarrow> string" where
  "lower s = map py_lower_char s"

definition py_isspace :: "char \<Rightarrow> bool" where
  "py_isspace c =
     (let n = (of_char c :: nat)
      in (9 \<le> n \<and> n \<le> 13) \<or> (28 \<le> n \<and> n \<le> 32) \<or> n = 133 \<or> n = 160)"

definition strip :: "string \<Rightarrow> string" where
  "strip s = rev (dropWhile py_isspace (rev (dropWhile py_isspace s)))"

definition is_decimal :: "char \<Rightarrow> bool" where
  "is_decimal c = (48 \<le> (of_char c :: nat) \<and> (of_char c :: nat) \<le> 57)"

text \<open>
  \<^verbatim>\<open>str.isdigit\<close> also accepts the superscript digits (code points 178, 179, 185),
  which \<^verbatim>\<open>int\<close> then rejects.
\<close>

definition py_isdigit_char :: "char \<Rightarrow> bool" where
  "py_isdigit_char c =
     (is_decimal c \<or> (of_char c :: nat) = 178 \<or> (of_char c :: nat) = 179
        \<or> (of_char c :: nat) = 185)"

definition isdigit :: "string \<Rightarrow> bool" where
  "isdigit s = (s \<noteq> [] \<and> list_all py_isdigit_char s)"

definition digit_val :: "char \<Rightarrow> nat" where
  "digit_val c = (of_char c :: nat) - 48"

definition decimal :: "string \<Rightarrow> nat" where
  "decimal ds = foldl (\<lambda>a c. 10 * a + digit_val c) 0 ds"

text \<open>
  The body of an integer literal accepted by \<^verbatim>\<open>int(s)\<close>: decimal digits, with single
  underscores allowed strictly between two digits. \<^verbatim>\<open>int\<close> strips white space and reads
  an optional sign first. The limit that recent interpreters put on the number of digits
  (4300 unless configured otherwise) is not modelled.
\<close>

fun literal_body :: "string \<Rightarrow> bool" where
  "literal_body [] = False"
| "literal_body [c] = is_decimal c"
| "literal_body (c # d # r) =
     (is_decimal c \<and> (if d = CHR ''_'' then literal_body r else literal_body (d # r)))"

definition py_int :: "string \<Rightarrow> int option" where
  "py_int s =
     (let t = strip s;
          neg = (case t of [] \<Rightarrow> False | c # _ \<Rightarrow> c = CHR ''-'');
          body = (case t of [] \<Rightarrow> []
                  | c # r \<Rightarrow> if c = CHR ''-'' \<or> c = CHR ''+'' then r else t)
      in if literal_body body
         then Some ((if neg then - 1 else 1)
                      * int (decimal (filter (\<lambda>c. c \<noteq> CHR ''_'') body)))
         else None)"

fun str_nat :: "nat \<Rightarrow> string" where
  "str_nat n =
     (if n < 10 then [char_of (48 + n)]
      else str_nat (n div 10) @ [char_of (48 + n mod 10)])"

declare str_nat.simps [simp del]

definition str_int :: "int \<Rightarrow> string" where
  "str_int i = (if i < 0 then CHR ''-'' # str_nat (nat (- i)) else str_nat (nat i))"

section \<open>The documents returned by the cloud CLI\<close>

datatype json =
    JNull
  | JBool bool
  | JNum int
  | JReal rat
  | JStr string
  | JArr "json list"
  | JObj "(string \<times> json) list"

text \<open>
  A JSON object is the list of its members as written; a later member with the same key
  overrides an earlier one. A number written as an integer literal (other than \<^verbatim>\<open>-0\<close>) is
  \<open>JNum\<close>; any other number (with a fraction or an exponent, or \<^verbatim>\<open>-0\<close>) is \<open>JReal\<close>,
  carrying its value.
\<close>

definition obj_member :: "(string \<times> json) list \<Rightarrow> string \<Rightarrow> json option" where
  "obj_member kvs k = map_of (rev kvs) k"

text \<open>A managed cluster of \<^verbatim>\<open>az aks list\<close> is a JSON object.\<close>

type_synonym cluster = "(string \<times> json) list"

text \<open>
  A resource descriptor of \<^verbatim>\<open>az resource list\<close>: its \<^verbatim>\<open>type\<close>, and its \<^verbatim>\<open>kind\<close>,
  which is \<open>None\<close> when the member is absent or null. Descriptors are well-formed: the
  type is a string, and so is a kind that is present. An account of \<^verbatim>\<open>az account list\<close>
  has the three members that the script reads.
\<close>

record az_resource =
  rtype :: string
  kind :: "string option"

record az_account =
  az_state :: string
  az_name :: string
  az_id :: string

section \<open>The jq program of the capacity resolver\<close>

text \<open>
  \<^verbatim>\<open>[ .[] | .agentPoolProfiles[]? | (.maxCount? // .count?) ] | map(select(type == "number")) | add\<close>
  Each filter maps an input to the list of its outputs.
\<close>

text \<open>\<^verbatim>\<open>.name\<close> on an object: the member, or null when it is absent.\<close>

definition jq_field :: "string \<Rightarrow> (string \<times> json) list \<Rightarrow> json" where
  "jq_field k kvs = (case obj_member kvs k of None \<Rightarrow> JNull | Some v \<Rightarrow> v)"

text \<open>\<^verbatim>\<open>.name?\<close>: as \<^verbatim>\<open>.name\<close> on an object, null on null, no output on any other input.\<close>

fun jq_field_opt :: "string \<Rightarrow> json \<Rightarrow> json list" where
  "jq_field_opt k (JObj kvs) = [jq_field k kvs]"
| "jq_field_opt k JNull = [JNull]"
| "jq_field_opt k _ = []"

text \<open>\<^verbatim>\<open>.[]?\<close>: the elements of an array, the values of an object, no output otherwise.\<close>

fun jq_each_opt :: "json \<Rightarrow> json list" where
  "jq_each_opt (JArr xs) = xs"
| "jq_each_opt (JObj kvs) = List.map_filter (obj_member kvs) (remdups (map fst kvs))"
| "jq_each_opt _ = []"

definition jq_truthy :: "json \<Rightarrow> bool" where
  "jq_truthy v = (v \<noteq> JNull \<and> v \<noteq> JBool False)"

text \<open>\<^verbatim>\<open>a // b\<close>: the outputs of \<open>a\<close> that are neither null nor false; those of \<open>b\<close> if there are none.\<close>

definition jq_alternative :: "json list \<Rightarrow> json list \<Rightarrow> json list" where
  "jq_alternative a b = (if filter jq_truthy a = [] then b else filter jq_truthy a)"

definition jq_profile_value :: "json \<Rightarrow> json list" where
  "jq_profile_value p = jq_alternative (jq_field_opt ''maxCount'' p) (jq_field_opt ''count'' p)"

definition agentPoolProfiles :: "cluster \<Rightarrow> json list" where
  "agentPoolProfiles c = jq_each_opt (jq_field ''agentPoolProfiles'' c)"

definition jq_collect :: "cluster list \<Rightarrow> json list" where
  "jq_collect doc = concat (map (\<lambda>c. concat (map jq_profile_value (agentPoolProfiles c))) doc)"

text \<open>\<^verbatim>\<open>map(select(type == "number"))\<close>\<close>

fun is_number :: "json \<Rightarrow> bool" where
  "is_number (JNum n) = True"
| "is_number (JReal q) = True"
| "is_number _ = False"

definition jq_numbers :: "json list \<Rightarrow> json list" where
  "jq_numbers vs = filter is_number vs"

text \<open>
  \<^verbatim>\<open>add\<close>: null for the empty array, the sum otherwise. jq holds numbers as IEEE doubles.
  Its sum is the exact one, and is printed as an integer in plain digits, when every number
  is an integer literal and the absolute values add up to at most \<open>2\<^sup>5\<^sup>3\<close>. What jq
  computes and prints for any other numbers (fractions, exponents, larger values) is not
  modelled: the text it prints is taken from the environment.
\<close>

fun is_integer_literal :: "json \<Rightarrow> bool" where
  "is_integer_literal (JNum n) = True"
| "is_integer_literal _ = False"

fun literal_int :: "json \<Rightarrow> int" where
  "literal_int (JNum n) = n"
| "literal_int _ = 0"

definition jq_exact :: "json list \<Rightarrow> bool" where
  "jq_exact ns =
     (list_all is_integer_literal ns \<and> (\<Sum>v\<leftarrow>ns. \<bar>literal_int v\<bar>) \<le> 9007199254740992)"

datatype jq_value = JqNull | JqExact int | JqInexact "json list"

definition jq_add :: "json list \<Rightarrow> jq_value" where
  "jq_add ns =
     (if ns = [] then JqNull
      else if jq_exact ns then JqExact (\<Sum>v\<leftarrow>ns. literal_int v)
      else JqInexact ns)"

definition jq_sum_cmd :: "cluster list \<Rightarrow> jq_value" where
  "jq_sum_cmd doc = jq_add (jq_numbers (jq_collect doc))"

text \<open>
  What \<^verbatim>\<open>jq -r\<close> prints for the result, with its newline; \<open>inexact\<close> gives the text for
  a sum outside the exact range.
\<close>

definition jq_r :: "(json list \<Rightarrow> string) \<Rightarrow> jq_value \<Rightarrow> string" where
  "jq_r inexact v =
     (case v of
        JqNull \<Rightarrow> ''null'' @ [CHR 0x0A]
      | JqExact n \<Rightarrow> str_int n @ [CHR 0x0A]
      | JqInexact ns \<Rightarrow> inexact ns)"

section \<open>The external collaborators\<close>

text \<open>
  What \<^verbatim>\<open>subprocess.getoutput\<close> of the \<^verbatim>\<open>az aks list ... | jq ...\<close> pipe does: it
  raises (with the exception's text), or \<^verbatim>\<open>az\<close> prints the cluster list and jq evaluates
  its program on it, or the pipe yields some other text (nothing when \<^verbatim>\<open>az\<close> fails, whose
  error output is discarded; the shell's or jq's own error text).
\<close>

datatype aks_fetch =
    AksRaised string
  | AksText string
  | AksListed "cluster list"

text \<open>
  An exception is the left summand, carrying \<^verbatim>\<open>str(e)\<close>. \<open>az_account_list\<close> is
  \<^verbatim>\<open>json.loads\<close> of the text of \<^verbatim>\<open>az account list\<close>; \<open>az_vm_list\<close> is the captured
  text of the \<^verbatim>\<open>az vm list ... | jq '.[].id' | wc -l\<close> pipe; \<open>az_resource_list\<close> is
  \<^verbatim>\<open>json.loads\<close> of the text of \<^verbatim>\<open>az resource list\<close>; \<open>repr\<close> is Python's
  \<^verbatim>\<open>repr\<close> of a string, which appears in the text of a \<^verbatim>\<open>ValueError\<close> of \<^verbatim>\<open>int\<close>;
  \<open>jq_inexact\<close> is the text that jq prints for the sum of numbers outside the range in
  which its arithmetic is exact.
\<close>

record env =
  az_account_list :: "string + az_account list"
  az_vm_list :: "string \<Rightarrow> string + string"
  az_resource_list :: "string \<Rightarrow> string + az_resource list"
  az_aks_list :: "string \<Rightarrow> aks_fetch"
  jq_inexact :: "json list \<Rightarrow> string"
  repr :: "string \<Rightarrow> string"

text \<open>The invocations of the cloud CLI, in the order they are made.\<close>

datatype call = AzVmList string | AzResourceList string | AzAksList string

section \<open>The variables of the script\<close>

type_synonym census = "string \<rightharpoonup> int"

text \<open>
  All variables of the script are module-level; \<open>requested_order\<close> is unbound (\<open>None\<close>)
  until the first enabled subscription has been processed. \<open>stdout\<close> holds the printed
  strings and \<open>calls\<close> the CLI invocations made so far.
\<close>

record state =
  global_totals :: census
  error_list :: "string list"
  sub_census :: census
  aks_counted_flag :: bool
  requested_order :: "string list option"
  stdout :: "string list"
  calls :: "call list"

definition py_print :: "string \<Rightarrow> state \<Rightarrow> state" where
  "py_print line s = s\<lparr>stdout := stdout s @ [line]\<rparr>"

definition invoke :: "call \<Rightarrow> state \<Rightarrow> state" where
  "invoke c s = s\<lparr>calls := calls s @ [c]\<rparr>"

definition record_error :: "string \<Rightarrow> state \<Rightarrow> state" where
  "record_error m s = s\<lparr>error_list := error_list s @ [m]\<rparr>"

definition dict_get :: "census \<Rightarrow> string \<Rightarrow> int \<Rightarrow> int" where
  "dict_get d k dflt = (case d k of None \<Rightarrow> dflt | Some v \<Rightarrow> v)"

abbreviation cat_vm :: string where "cat_vm \<equiv> ''Virtual Machines (VMs)''"
abbreviation cat_aks :: string where "cat_aks \<equiv> ''Container Hosts (AKS Clusters)''"
abbreviation cat_caas :: string where "cat_caas \<equiv> ''Container as a Service (CaaS)''"
abbreviation cat_functions :: string where "cat_functions \<equiv> ''Serverless Functions''"
abbreviation cat_buckets :: string where "cat_buckets \<equiv> ''Cloud Buckets (Storage Accounts)''"
abbreviation cat_paas :: string where "cat_paas \<equiv> ''Managed Cloud Database (PaaS)''"
abbreviation cat_acr :: string where "cat_acr \<equiv> ''Container Registries (ACR)''"

definition RESOURCE_TO_CATEGORY :: "(string \<times> string) list" where
  "RESOURCE_TO_CATEGORY =
    [(''microsoft.compute/virtualmachines'', cat_vm),
     (''microsoft.containerservice/managedclusters'', cat_aks),
     (''microsoft.containerinstance/containergroups'', cat_caas),
     (''microsoft.app/containerapps'', cat_caas),
     (''microsoft.storage/storageaccounts'', cat_buckets),
     (''microsoft.sql/servers'', cat_paas),
     (''microsoft.sql/managedinstances'', cat_paas),
     (''microsoft.documentdb/databaseaccounts'', cat_paas),
     (''microsoft.cache/redis'', cat_paas),
     (''microsoft.dbformysql/servers'', cat_paas),
     (''microsoft.dbformysql/flexibleservers'', cat_paas),
     (''microsoft.dbforpostgresql/servergroupsv2'', cat_paas),
     (''microsoft.dbforpostgresql/flexibleservers'', cat_paas),
     (''microsoft.dbforpostgresql/servers'', cat_paas),
     (''microsoft.containerregistry/registries'', cat_acr)]"

definition function_kind :: string where
  "function_kind = ''functionapp''"

definition zero_census :: census where
  "zero_census =
    [cat_vm \<mapsto> 0, cat_aks \<mapsto> 0, cat_caas \<mapsto> 0, cat_functions \<mapsto> 0,
     cat_buckets \<mapsto> 0, cat_paas \<mapsto> 0, cat_acr \<mapsto> 0]"

definition canonical_order :: "string list" where
  "canonical_order =
    [cat_vm, cat_aks, cat_caas, cat_functions, cat_buckets, cat_paas, cat_acr]"

definition initial_state :: state where
  "initial_state =
    \<lparr>global_totals = zero_census, error_list = [], sub_census = Map.empty,
     aks_counted_flag = False, requested_order = None, stdout = [], calls = []\<rparr>"

definition bar :: string where
  "bar = ''###################################################################################''"

section \<open>The capacity resolver\<close>

text \<open>
  \<^verbatim>\<open>subprocess.getoutput(full_cmd)\<close>. It also removes one trailing newline, which the
  \<^verbatim>\<open>strip\<close> that follows would remove anyway.
\<close>

definition full_cmd :: "env \<Rightarrow> string \<Rightarrow> string + string" where
  "full_cmd e subscription_id =
     (case az_aks_list e subscription_id of
        AksRaised m \<Rightarrow> Inl m
      | AksText t \<Rightarrow> Inr t
      | AksListed doc \<Rightarrow> Inr (jq_r (jq_inexact e) (jq_sum_cmd doc)))"

definition aks_error :: "string \<Rightarrow> string \<Rightarrow> string \<Rightarrow> string" where
  "aks_error subscription_name subscription_id m =
     subscription_name @ '' ('' @ subscription_id
       @ '') - Failed to execute or parse configured AKS node count. Error: '' @ m"

definition invalid_literal :: "env \<Rightarrow> string \<Rightarrow> string" where
  "invalid_literal e t = ''invalid literal for int() with base 10: '' @ repr e t"

text \<open>
  The body of the \<^verbatim>\<open>try\<close> either yields the node count or raises; the \<^verbatim>\<open>except\<close>
  clause appends the error and returns 0.
\<close>

definition get_configured_aks_node_count ::
    "env \<Rightarrow> string \<Rightarrow> string \<Rightarrow> state \<Rightarrow> int \<times> state" where
  "get_configured_aks_node_count e subscription_id subscription_name s =
     (let s1 = invoke (AzAksList subscription_id) s;
          failed = (\<lambda>m. (0, record_error (aks_error subscription_name subscription_id m) s1))
      in case full_cmd e subscription_id of
           Inl m \<Rightarrow> failed m
         | Inr out \<Rightarrow>
             (let count_output = strip out
              in if isdigit count_output then
                   (case py_int count_output of
                      Some total_potential_nodes \<Rightarrow> (total_potential_nodes, s1)
                    | None \<Rightarrow> failed (invalid_literal e count_output))
                 else if count_output = ''null'' \<or> count_output = [] then (0, s1)
                 else failed (''Unexpected output from AKS count pipe: '' @ count_output)))"

section \<open>The subscription scanner\<close>

definition vm_error :: "string \<Rightarrow> string \<Rightarrow> string \<Rightarrow> string" where
  "vm_error subscription_name subscription_id m =
     subscription_name @ '' ('' @ subscription_id
       @ '') - Error executing 'az vm list'. Error: '' @ m"

definition vm_scan :: "env \<Rightarrow> string \<Rightarrow> string \<Rightarrow> state \<Rightarrow> state" where
  "vm_scan e subscription_id subscription_name s =
     (let s1 = invoke (AzVmList subscription_id) s;
          failed = (\<lambda>m. py_print ''  [ERROR] Error executing 'az vm list'.''
                          (record_error (vm_error subscription_name subscription_id m) s1))
      in case az_vm_list e subscription_id of
           Inl m \<Rightarrow> failed m
         | Inr out \<Rightarrow>
             (case py_int (strip out) of
                None \<Rightarrow> failed (invalid_literal e (strip out))
              | Some sub_vm_count \<Rightarrow>
                  if sub_vm_count > 0
                  then s1\<lparr>sub_census := (sub_census s1)(cat_vm \<mapsto> sub_vm_count)\<rparr>
                  else s1))"

definition increment :: "string \<Rightarrow> state \<Rightarrow> state" where
  "increment category s =
     s\<lparr>sub_census := (sub_census s)(category \<mapsto> dict_get (sub_census s) category 0 + 1)\<rparr>"

text \<open>
  One iteration of the loop over \<^verbatim>\<open>az_resources\<close>. A \<^verbatim>\<open>continue\<close> leaves the state as
  it is. A string is true when it is not empty.
\<close>

definition scan_step :: "env \<Rightarrow> string \<Rightarrow> string \<Rightarrow> az_resource \<Rightarrow> state \<Rightarrow> state" where
  "scan_step e subscription_id subscription_name r s =
     (let resource_type = lower (rtype r)
      in if resource_type = ''microsoft.containerservice/managedclusters''
              \<and> \<not> aks_counted_flag s then
           (let s1 = py_print ''  Counting POTENTIAL (Max Capacity) AKS Nodes...'' s;
                (configured_node_count, s2) =
                   get_configured_aks_node_count e subscription_id subscription_name s1
            in s2\<lparr>sub_census := (sub_census s2)(cat_aks \<mapsto> configured_node_count),
                  aks_counted_flag := True\<rparr>)
         else if resource_type = ''microsoft.containerservice/managedclusters''
              \<and> aks_counted_flag s then s
         else if resource_type = ''microsoft.web/sites'' then
           (case kind r of
              None \<Rightarrow> s
            | Some k \<Rightarrow>
                if k \<noteq> [] \<and> sublist function_kind (lower k)
                then increment cat_functions s else s)
         else if resource_type = ''microsoft.compute/virtualmachines''
              \<or> resource_type = ''microsoft.synapse/workspaces'' then s
         else
           (case map_of RESOURCE_TO_CATEGORY resource_type of
              None \<Rightarrow> s
            | Some category \<Rightarrow> if category \<noteq> [] then increment category s else s))"

fun scan_resources ::
    "env \<Rightarrow> string \<Rightarrow> string \<Rightarrow> az_resource list \<Rightarrow> state \<Rightarrow> state" where
  "scan_resources e subscription_id subscription_name [] s = s"
| "scan_resources e subscription_id subscription_name (r # rs) s =
     scan_resources e subscription_id subscription_name rs
       (scan_step e subscription_id subscription_name r s)"

definition resource_error :: "string \<Rightarrow> string \<Rightarrow> string \<Rightarrow> string" where
  "resource_error subscription_name subscription_id m =
     subscription_name @ '' ('' @ subscription_id
       @ '') - Error executing 'az resource list'. Error: '' @ m"

definition resource_scan :: "env \<Rightarrow> string \<Rightarrow> string \<Rightarrow> state \<Rightarrow> state" where
  "resource_scan e subscription_id subscription_name s =
     (let s1 = invoke (AzResourceList subscription_id) s
      in case az_resource_list e subscription_id of
           Inl m \<Rightarrow>
             py_print ''  [ERROR] Error executing 'az resource list'.''
               (record_error (resource_error subscription_name subscription_id m) s1)
         | Inr az_resources \<Rightarrow>
             scan_resources e subscription_id subscription_name az_resources s1)"

section \<open>The aggregator and the run\<close>

text \<open>
  An exception that no \<^verbatim>\<open>try\<close> encloses ends the script: the functions below return it
  as the left summand.
\<close>

fun accumulate :: "string list \<Rightarrow> state \<Rightarrow> string + state" where
  "accumulate [] s = Inr s"
| "accumulate (category # cs) s =
     (let count = dict_get (sub_census s) category 0;
          s1 = py_print (''  '' @ category @ '': '' @ str_int count) s
      in case global_totals s1 category of
           None \<Rightarrow> Inl (''KeyError: '' @ category)
         | Some g \<Rightarrow>
             accumulate cs (s1\<lparr>global_totals := (global_totals s1)(category \<mapsto> g + count)\<rparr>))"

text \<open>The first two phases of one pass of the loop over the accounts: the two scans.\<close>

definition scan_subscription :: "env \<Rightarrow> az_account \<Rightarrow> state \<Rightarrow> state" where
  "scan_subscription e a s =
     (let subscription_name = az_name a;
          subscription_id = az_id a;
          s1 = py_print bar s;
          s2 = py_print (''Processing Account: '' @ subscription_name @ '' (''
                          @ subscription_id @ '')'') s1;
          s3 = s2\<lparr>sub_census := zero_census, aks_counted_flag := False\<rparr>;
          s4 = vm_scan e subscription_id subscription_name s3
      in resource_scan e subscription_id subscription_name s4)"

definition process_account :: "env \<Rightarrow> az_account \<Rightarrow> state \<Rightarrow> string + state" where
  "process_account e a s =
     (if az_state a \<noteq> ''Enabled'' then Inr s
      else
        (let s5 = scan_subscription e a s;
             s6 = py_print (CHR 0x0A # ''--- Subscription Resource Census ---'') s5;
             s7 = s6\<lparr>requested_order := Some canonical_order\<rparr>
         in case accumulate canonical_order s7 of
              Inl x \<Rightarrow> Inl x
            | Inr s8 \<Rightarrow> Inr (py_print bar s8)))"

fun for_accounts :: "env \<Rightarrow> az_account list \<Rightarrow> state \<Rightarrow> string + state" where
  "for_accounts e [] s = Inr s"
| "for_accounts e (a # as) s =
     (case process_account e a s of
        Inl x \<Rightarrow> Inl x
      | Inr s' \<Rightarrow> for_accounts e as s')"

fun grand_totals :: "string list \<Rightarrow> state \<Rightarrow> string + state" where
  "grand_totals [] s = Inr s"
| "grand_totals (category # cs) s =
     (case global_totals s category of
        None \<Rightarrow> Inl (''KeyError: '' @ category)
      | Some g \<Rightarrow>
          grand_totals cs (py_print (''Grand Total '' @ category @ '': '' @ str_int g) s))"

definition closing_notes :: "string list" where
  "closing_notes =
    [''Note: The 'Virtual Machines' total includes all states (Running, Stopped, Deallocated, etc.).'',
     ''Note: 'Container Hosts (AKS Clusters)' reports the total potential node count (maxCount for autoscale or count for manual).'',
     ''Note: 'Cloud Buckets' counts Storage Accounts (excluding Classic/ADLS Gen1).'',
     ''Note: 'Container Registries (ACR)' counts the total ACR found, not total container image due to Azure API limitation.'',
     []]"

definition error_block :: "state \<Rightarrow> state" where
  "error_block s =
     (if error_list s = [] then s
      else s\<lparr>stdout := stdout s @ [CHR 0x0A # bar, ''Errors Encountered:'']
                          @ error_list s @ [bar]\<rparr>)"

text \<open>
  The script from the loop over the accounts on. The grand-total loop reads
  \<open>requested_order\<close>, which only a pass of the loop over an enabled subscription binds.
\<close>

definition run_accounts :: "env \<Rightarrow> az_account list \<Rightarrow> string + state" where
  "run_accounts e accounts =
     (case for_accounts e accounts initial_state of
        Inl x \<Rightarrow> Inl x
      | Inr s \<Rightarrow>
          (let s1 = py_print ''--- GRAND TOTALS ACROSS ALL ENABLED SUBSCRIPTIONS ---''
                      (py_print (CHR 0x0A # bar) s)
           in case requested_order s1 of
                None \<Rightarrow> Inl ''NameError: name 'requested_order' is not defined''
              | Some order \<Rightarrow>
                  (case grand_totals order s1 of
                     Inl x \<Rightarrow> Inl x
                   | Inr s2 \<Rightarrow>
                       Inr (error_block (s2\<lparr>stdout := stdout s2 @ [bar] @ closing_notes\<rparr>)))))"

text \<open>
  The whole script: the account list is fetched and parsed outside any \<^verbatim>\<open>try\<close>, so an
  exception there ends the script before the loop.
\<close>

definition main :: "env \<Rightarrow> string + state" where
  "main e =
     (case az_account_list e of
        Inl x \<Rightarrow> Inl x
      | Inr accounts \<Rightarrow> run_accounts e accounts)"

section \<open>Node counts of a cluster list\<close>

definition number_value :: "json \<Rightarrow> rat" where
  "number_value v = (case v of JNum n \<Rightarrow> rat_of_int n | JReal q \<Rightarrow> q | _ \<Rightarrow> 0)"

text \<open>
  What one node-pool profile adds to the total: its \<^verbatim>\<open>maxCount\<close> if it is present and
  numeric, else its \<^verbatim>\<open>count\<close> if it is present and numeric, else nothing. (An absent member
  reads as null.)
\<close>

definition spec_profile_nodes :: "json \<Rightarrow> rat" where
  "spec_profile_nodes p =
     (case p of
        JObj kvs \<Rightarrow>
          if is_number (jq_field ''maxCount'' kvs) then number_value (jq_field ''maxCount'' kvs)
          else if is_number (jq_field ''count'' kvs) then number_value (jq_field ''count'' kvs)
          else 0
      | _ \<Rightarrow> 0)"

definition total_nodes :: "(json \<Rightarrow> rat) \<Rightarrow> cluster list \<Rightarrow> rat" where
  "total_nodes f doc = sum_list (map (\<lambda>c. sum_list (map f (agentPoolProfiles c))) doc)"

text \<open>
  The data model of a node-pool profile gives it an optional numeric \<^verbatim>\<open>maxCount\<close>: the
  member is absent, null or a number.
\<close>

definition optional_number :: "json \<Rightarrow> bool" where
  "optional_number v = (v = JNull \<or> is_number v)"

definition numeric_max_count :: "json \<Rightarrow> bool" where
  "numeric_max_count p =
     (case p of JObj kvs \<Rightarrow> optional_number (jq_field ''maxCount'' kvs) | _ \<Rightarrow> True)"

definition numeric_max_counts :: "cluster list \<Rightarrow> bool" where
  "numeric_max_counts doc = list_all (\<lambda>c. list_all numeric_max_count (agentPoolProfiles c)) doc"

section \<open>Notions used in the statements\<close>

text \<open>The test of the scan loop for a cluster descriptor.\<close>

definition is_cluster :: "az_resource \<Rightarrow> bool" where
  "is_cluster r = (lower (rtype r) = ''microsoft.containerservice/managedclusters'')"

text \<open>Whether the VM listing of a subscription fails, and with which exception text.\<close>

definition vm_failure :: "env \<Rightarrow> string \<Rightarrow> string option" where
  "vm_failure e subscription_id =
     (case az_vm_list e subscription_id of
        Inl m \<Rightarrow> Some m
      | Inr out \<Rightarrow>
          (case py_int (strip out) of
             None \<Rightarrow> Some (invalid_literal e (strip out))
           | Some _ \<Rightarrow> None))"

text \<open>The subscriptions that the run scans.\<close>

definition enabled :: "az_account \<Rightarrow> bool" where
  "enabled a = (az_state a = ''Enabled'')"

text \<open>The CLI invocations that the scan of one subscription makes.\<close>

definition account_calls :: "env \<Rightarrow> az_account \<Rightarrow> call list" where
  "account_calls e a =
     [AzVmList (az_id a), AzResourceList (az_id a)]
       @ (case az_resource_list e (az_id a) of
            Inl _ \<Rightarrow> []
          | Inr rs \<Rightarrow> if list_ex is_cluster rs then [AzAksList (az_id a)] else [])"

text \<open>The count of a category that the scan of one subscription ends with.\<close>

definition subscription_count :: "env \<Rightarrow> az_account \<Rightarrow> string \<Rightarrow> int" where
  "subscription_count e a category =
     dict_get (sub_census (scan_subscription e a initial_state)) category 0"

text \<open>The line printed for a category in a subscription's block, and in the grand totals.\<close>

definition census_line :: "string \<Rightarrow> int \<Rightarrow> string" where
  "census_line category count = ''  '' @ category @ '': '' @ str_int count"

definition grand_total_line :: "string \<Rightarrow> int \<Rightarrow> string" where
  "grand_total_line category count = ''Grand Total '' @ category @ '': '' @ str_int count"

text \<open>The sum of a category's counts over the enabled subscriptions.\<close>

definition grand_total :: "env \<Rightarrow> az_account list \<Rightarrow> string \<Rightarrow> int" where
  "grand_total e accounts category =
     (\<Sum>a\<leftarrow>filter enabled accounts. subscription_count e a category)"

section \<open>Sample inputs\<close>

definition example_pools :: "cluster list" where
  "example_pools =
    [[(''agentPoolProfiles'',
       JArr [JObj [(''maxCount'', JNum 5), (''count'', JNum 3)],
             JObj [(''count'', JNum 2)],
             JObj [(''maxCount'', JNull), (''count'', JNum 4)]])]]"

definition negative_pools :: "cluster list" where
  "negative_pools =
    [[(''agentPoolProfiles'',
       JArr [JObj [(''maxCount'', JNum 5), (''count'', JNum 3)],
             JObj [(''count'', JNum (- 7))]])]]"

definition aks_env :: "aks_fetch \<Rightarrow> env" where
  "aks_env f =
    \<lparr>az_account_list = Inr [],
     az_vm_list = (\<lambda>_. Inr ''0''), az_resource_list = (\<lambda>_. Inr []),
     az_aks_list = (\<lambda>_. f), jq_inexact = (\<lambda>_. []),
     repr = (\<lambda>t. [CHR 0x27] @ t @ [CHR 0x27])\<rparr>"

text \<open>Descriptors, and the state at the start of a subscription's resource scan.\<close>

definition function_app :: az_resource where
  "function_app = \<lparr>rtype = ''Microsoft.Web/sites'', kind = Some ''functionapp,linux''\<rparr>"

definition web_app :: az_resource where
  "web_app = \<lparr>rtype = ''Microsoft.Web/sites'', kind = Some ''app''\<rparr>"

definition bare_site :: az_resource where
  "bare_site = \<lparr>rtype = ''Microsoft.Web/sites'', kind = None\<rparr>"

definition empty_kind_site :: az_resource where
  "empty_kind_site = \<lparr>rtype = ''Microsoft.Web/sites'', kind = Some []\<rparr>"

definition fresh_scan :: state where
  "fresh_scan = initial_state\<lparr>sub_census := zero_census\<rparr>"

definition busy_scan :: state where
  "busy_scan =
     initial_state\<lparr>sub_census := zero_census(cat_functions \<mapsto> 4, cat_buckets \<mapsto> 2)\<rparr>"

definition storage_account :: az_resource where
  "storage_account = \<lparr>rtype = ''Microsoft.Storage/storageAccounts'', kind = Some ''StorageV2''\<rparr>"

definition storage_account_lowercase :: az_resource where
  "storage_account_lowercase =
     \<lparr>rtype = ''microsoft.storage/storageaccounts'', kind = Some ''StorageV2''\<rparr>"

definition blob_service :: az_resource where
  "blob_service =
     \<lparr>rtype = ''Microsoft.Storage/storageAccounts/blobServices'', kind = None\<rparr>"

definition managed_cluster :: az_resource where
  "managed_cluster = \<lparr>rtype = ''Microsoft.ContainerService/managedClusters'', kind = None\<rparr>"

text \<open>
  Two enabled subscriptions with 3 and 5 VMs, a disabled one, and a CLI whose VM listing
  yields an error text instead of a count for the subscription \<^verbatim>\<open>sub-3\<close>.
\<close>

definition account_a :: az_account where
  "account_a = \<lparr>az_state = ''Enabled'', az_name = ''Production'', az_id = ''sub-1''\<rparr>"

definition account_b :: az_account where
  "account_b = \<lparr>az_state = ''Enabled'', az_name = ''Staging'', az_id = ''sub-2''\<rparr>"

definition account_c :: az_account where
  "account_c = \<lparr>az_state = ''Enabled'', az_name = ''Development'', az_id = ''sub-3''\<rparr>"

definition account_off :: az_account where
  "account_off = \<lparr>az_state = ''Disabled'', az_name = ''Old'', az_id = ''sub-0''\<rparr>"

definition quoted :: "string \<Rightarrow> string" where
  "quoted t = [CHR 0x27] @ t @ [CHR 0x27]"

definition sample_env :: env where
  "sample_env =
    \<lparr>az_account_list = Inr [account_c, account_off, account_a],
     az_vm_list = (\<lambda>i. if i = ''sub-1'' then Inr ''3''
                       else if i = ''sub-2'' then Inr ''5''
                       else Inr ''parse error: Invalid numeric literal at line 1, column 6''),
     az_resource_list = (\<lambda>i. if i = ''sub-3'' then Inr [storage_account] else Inr []),
     az_aks_list = (\<lambda>_. AksText []),
     jq_inexact = (\<lambda>_. []),
     repr = quoted\<rparr>"

text \<open>A CLI that is not logged in: the text of \<^verbatim>\<open>az account list\<close> is not JSON.\<close>

definition logged_out_env :: env where
  "logged_out_env =
    \<lparr>az_account_list = Inl ''Expecting value: line 1 column 1 (char 0)'',
     az_vm_list = (\<lambda>_. Inr ''0''), az_resource_list = (\<lambda>_. Inr []),
     az_aks_list = (\<lambda>_. AksText []), jq_inexact = (\<lambda>_. []), repr = quoted\<rparr>"

definition sample_vm_error :: string where
  "sample_vm_error =
     invalid_literal sample_env ''parse error: Invalid numeric literal at line 1, column 6''"

section \<open>Properties of the string functions\<close>

lemma is_decimal_not_space: "is_decimal c \<Longrightarrow> \<not> py_isspace c"
  by (simp add: is_decimal_def py_isspace_def Let_def)

lemma strip_no_space:
  assumes "s \<noteq> [] \<Longrightarrow> \<not> py_isspace (hd s) \<and> \<not> py_isspace (last s)"
  shows "strip s = s"
proof (cases "s = []")
  case True
  then show ?thesis by (simp add: strip_def)
next
  case False
  with assms have h: "\<not> py_isspace (hd s)" and l: "\<not> py_isspace (last s)" by simp_all
  from h False have a: "dropWhile py_isspace s = s"
    by (simp add: dropWhile_eq_self_iff)
  from l False have b: "dropWhile py_isspace (rev s) = rev s"
    by (simp add: dropWhile_eq_self_iff hd_rev)
  show ?thesis by (simp add: strip_def a b)
qed

lemma strip_newline:
  assumes "s \<noteq> []" "\<not> py_isspace (hd s)" "\<not> py_isspace (last s)"
  shows "strip (s @ [CHR 0x0A]) = s"
proof -
  from assms have a: "dropWhile py_isspace (s @ [CHR 0x0A]) = s @ [CHR 0x0A]"
    by (cases s) simp_all
  have n: "py_isspace (CHR 0x0A)" by (simp add: py_isspace_def)
  from assms have b: "dropWhile py_isspace (rev s) = rev s"
    by (simp add: dropWhile_eq_self_iff hd_rev)
  show ?thesis by (simp add: strip_def a n b)
qed

lemma digit_char: "d < 10 \<Longrightarrow> is_decimal (char_of (48 + d)) \<and> digit_val (char_of (48 + d :: nat)) = d"
  by (simp add: is_decimal_def digit_val_def)

lemma str_nat_decimal: "list_all is_decimal (str_nat n)"
proof (induction n rule: str_nat.induct)
  case (1 n)
  show ?case
  proof (cases "n < 10")
    case True
    then show ?thesis using digit_char[of n] by (simp add: str_nat.simps[of n])
  next
    case False
    have "n mod 10 < 10" by simp
    with False 1 show ?thesis using digit_char[of "n mod 10"] by (simp add: str_nat.simps[of n])
  qed
qed

lemma str_nat_nonempty: "str_nat n \<noteq> []"
  by (simp add: str_nat.simps[of n])

lemma decimal_snoc: "decimal (ds @ [c]) = 10 * decimal ds + digit_val c"
  by (simp add: decimal_def)

lemma decimal_str_nat: "decimal (str_nat n) = n"
proof (induction n rule: str_nat.induct)
  case (1 n)
  show ?case
  proof (cases "n < 10")
    case True
    then show ?thesis using digit_char[of n] by (simp add: str_nat.simps[of n] decimal_def)
  next
    case False
    have "n mod 10 < 10" by simp
    with False 1 show ?thesis using digit_char[of "n mod 10"]
      by (simp add: str_nat.simps[of n] decimal_snoc)
  qed
qed

lemma underscore_not_decimal: "\<not> is_decimal (CHR ''_'')"
  by (simp add: is_decimal_def)

lemma literal_body_digits: "ds \<noteq> [] \<Longrightarrow> list_all is_decimal ds \<Longrightarrow> literal_body ds"
proof (induction ds rule: literal_body.induct)
  case 1
  then show ?case by simp
next
  case (2 c)
  then show ?case by simp
next
  case (3 c d r)
  then show ?case using underscore_not_decimal by auto
qed

lemma filter_underscore_digits: "list_all is_decimal ds \<Longrightarrow> filter (\<lambda>c. c \<noteq> CHR ''_'') ds = ds"
  using underscore_not_decimal by (induction ds) auto

lemma sign_not_decimal: "\<not> is_decimal (CHR ''-'')" "\<not> is_decimal (CHR ''+'')"
  by (simp_all add: is_decimal_def)

lemma strip_digits: "list_all is_decimal ds \<Longrightarrow> strip ds = ds"
proof (rule strip_no_space)
  assume a: "list_all is_decimal ds" and b: "ds \<noteq> []"
  then have "is_decimal (hd ds)" "is_decimal (last ds)"
    by (simp_all add: list_all_iff)
  then show "\<not> py_isspace (hd ds) \<and> \<not> py_isspace (last ds)"
    by (simp add: is_decimal_not_space)
qed

lemma py_int_digits:
  assumes "ds \<noteq> []" "list_all is_decimal ds"
  shows "py_int ds = Some (int (decimal ds))"
proof -
  obtain c r where ds: "ds = c # r" using assms(1) by (cases ds) auto
  with assms(2) have c: "is_decimal c" by simp
  then have cs: "c \<noteq> CHR ''-''" "c \<noteq> CHR ''+''" using sign_not_decimal by auto
  have st: "strip ds = ds" using assms(2) by (rule strip_digits)
  have neg: "(case ds of [] \<Rightarrow> False | c # _ \<Rightarrow> c = CHR ''-'') = False"
    using cs by (simp add: ds)
  have body: "(case ds of [] \<Rightarrow> [] | c # r \<Rightarrow> if c = CHR ''-'' \<or> c = CHR ''+'' then r else ds) = ds"
    using cs by (simp add: ds)
  have lb: "literal_body ds" using assms by (rule literal_body_digits)
  have fl: "filter (\<lambda>c. c \<noteq> CHR ''_'') ds = ds"
    using assms(2) by (rule filter_underscore_digits)
  show ?thesis
    unfolding py_int_def Let_def st neg body fl using lb by simp
qed

lemma isdigit_digits: "ds \<noteq> [] \<Longrightarrow> list_all is_decimal ds \<Longrightarrow> isdigit ds"
  by (auto simp: isdigit_def py_isdigit_char_def list_all_iff)

section \<open>Properties of the capacity resolver\<close>

lemma literal_body_chars: "literal_body ds \<Longrightarrow> list_all (\<lambda>c. is_decimal c \<or> c = CHR ''_'') ds"
  by (induction ds rule: literal_body.induct) (auto split: if_splits)

lemma isdigit_char_facts:
  assumes "py_isdigit_char c"
  shows "\<not> py_isspace c" "c \<noteq> CHR ''-''" "c \<noteq> CHR ''+''" "c \<noteq> CHR ''_''"
  using assms by (auto simp: py_isdigit_char_def is_decimal_def py_isspace_def Let_def)

lemma isdigit_strip: assumes "isdigit t" shows "strip t = t"
proof (rule strip_no_space)
  from assms have "py_isdigit_char (hd t)" "py_isdigit_char (last t)"
    by (simp_all add: isdigit_def list_all_iff)
  then show "\<not> py_isspace (hd t) \<and> \<not> py_isspace (last t)"
    by (simp add: isdigit_char_facts)
qed

lemma isdigit_py_int:
  assumes "isdigit t"
  shows "py_int t = (if list_all is_decimal t then Some (int (decimal t)) else None)"
proof (cases "list_all is_decimal t")
  case True
  with assms show ?thesis by (simp add: py_int_digits isdigit_def)
next
  case False
  from assms obtain c r where t: "t = c # r" by (cases t) (auto simp: isdigit_def)
  with assms have "py_isdigit_char c" by (simp add: isdigit_def)
  then have cs: "c \<noteq> CHR ''-''" "c \<noteq> CHR ''+''" by (simp_all add: isdigit_char_facts)
  have body: "(case t of [] \<Rightarrow> [] | c # r \<Rightarrow> if c = CHR ''-'' \<or> c = CHR ''+'' then r else t) = t"
    using cs by (simp add: t)
  have "\<not> literal_body t"
  proof
    assume "literal_body t"
    then have "list_all (\<lambda>c. is_decimal c \<or> c = CHR ''_'') t" by (rule literal_body_chars)
    moreover from assms have "list_all (\<lambda>c. c \<noteq> CHR ''_'') t"
      by (auto simp: isdigit_def list_all_iff isdigit_char_facts)
    ultimately have "list_all is_decimal t" by (auto simp: list_all_iff)
    with False show False by simp
  qed
  then show ?thesis using False
    unfolding py_int_def Let_def isdigit_strip[OF assms] body by simp
qed

lemma digits_isdigit_iff: "list_all is_decimal t \<and> t \<noteq> [] \<Longrightarrow> isdigit t"
  by (simp add: isdigit_digits)

lemma resolver_cases:
  "get_configured_aks_node_count e i n s =
     (let s1 = invoke (AzAksList i) s
      in case full_cmd e i of
           Inl m \<Rightarrow> (0, record_error (aks_error n i m) s1)
         | Inr out \<Rightarrow>
             if strip out \<noteq> [] \<and> list_all is_decimal (strip out)
             then (int (decimal (strip out)), s1)
             else if strip out = ''null'' \<or> strip out = [] then (0, s1)
             else if isdigit (strip out)
             then (0, record_error (aks_error n i (invalid_literal e (strip out))) s1)
             else (0, record_error (aks_error n i
                        (''Unexpected output from AKS count pipe: '' @ strip out)) s1))"
proof (cases "full_cmd e i")
  case (Inl m)
  then show ?thesis by (simp add: get_configured_aks_node_count_def Let_def)
next
  case (Inr out)
  show ?thesis
  proof (cases "isdigit (strip out)")
    case True
    then have ne: "strip out \<noteq> []" "strip out \<noteq> ''null''"
      by (auto simp: isdigit_def py_isdigit_char_def is_decimal_def)
    show ?thesis using Inr True ne
      by (simp add: get_configured_aks_node_count_def Let_def isdigit_py_int)
  next
    case False
    then have "\<not> (strip out \<noteq> [] \<and> list_all is_decimal (strip out))"
      using isdigit_digits by blast
    then show ?thesis using Inr False
      by (auto simp add: get_configured_aks_node_count_def Let_def)
  qed
qed

lemma error_list_invoke [simp]: "error_list (invoke c s) = error_list s"
  by (simp add: invoke_def)

lemma error_list_record_error [simp]: "error_list (record_error m s) = error_list s @ [m]"
  by (simp add: record_error_def)

lemma jq_numbers_append: "jq_numbers (xs @ ys) = jq_numbers xs @ jq_numbers ys"
  by (simp add: jq_numbers_def)

lemma profile_value_spec:
  assumes "numeric_max_count p"
  shows "(\<Sum>v\<leftarrow>jq_numbers (jq_profile_value p). number_value v) = spec_profile_nodes p"
proof (cases p)
  case (JObj kvs)
  with assms have o: "optional_number (jq_field ''maxCount'' kvs)"
    by (simp add: numeric_max_count_def)
  show ?thesis
  proof (cases "is_number (jq_field ''maxCount'' kvs)")
    case True
    then have "jq_truthy (jq_field ''maxCount'' kvs)"
      by (cases "jq_field ''maxCount'' kvs") (simp_all add: jq_truthy_def)
    with True show ?thesis using JObj
      by (simp add: jq_profile_value_def jq_alternative_def jq_numbers_def spec_profile_nodes_def)
  next
    case False
    with o have n: "jq_field ''maxCount'' kvs = JNull" by (simp add: optional_number_def)
    show ?thesis using JObj n
      by (simp add: jq_profile_value_def jq_alternative_def jq_truthy_def jq_numbers_def
          spec_profile_nodes_def)
  qed
qed (simp_all add: jq_profile_value_def jq_alternative_def jq_truthy_def jq_numbers_def
      spec_profile_nodes_def)

lemma profiles_spec:
  assumes "list_all numeric_max_count ps"
  shows "(\<Sum>v\<leftarrow>jq_numbers (concat (map jq_profile_value ps)). number_value v)
           = (\<Sum>p\<leftarrow>ps. spec_profile_nodes p)"
  using assms by (induction ps) (simp_all add: jq_numbers_append profile_value_spec, simp add: jq_numbers_def)

lemma collect_spec:
  assumes "numeric_max_counts doc"
  shows "(\<Sum>v\<leftarrow>jq_numbers (jq_collect doc). number_value v) = total_nodes spec_profile_nodes doc"
  using assms
proof (induction doc)
  case Nil
  show ?case by (simp add: jq_collect_def total_nodes_def jq_numbers_def)
next
  case (Cons c doc)
  from Cons.prems have p: "list_all numeric_max_count (agentPoolProfiles c)"
    and d: "numeric_max_counts doc" by (simp_all add: numeric_max_counts_def)
  have "jq_collect (c # doc) = concat (map jq_profile_value (agentPoolProfiles c)) @ jq_collect doc"
    by (simp add: jq_collect_def)
  then show ?case
    using profiles_spec[OF p] Cons.IH[OF d]
    by (simp add: jq_numbers_append total_nodes_def)
qed

lemma exact_value:
  assumes "list_all is_integer_literal ns"
  shows "(\<Sum>v\<leftarrow>ns. number_value v) = rat_of_int (\<Sum>v\<leftarrow>ns. literal_int v)"
  using assms
proof (induction ns)
  case Nil
  show ?case by simp
next
  case (Cons v ns)
  then show ?case by (cases v) (simp_all add: number_value_def)
qed

lemma strip_int_newline: "strip (str_int i @ [CHR 0x0A]) = str_int i"
proof -
  let ?ds = "str_nat (nat (if i < 0 then - i else i))"
  have d: "list_all is_decimal ?ds" by (rule str_nat_decimal)
  have ne: "?ds \<noteq> []" by (rule str_nat_nonempty)
  from d ne have dl: "is_decimal (last ?ds)" and dh: "is_decimal (hd ?ds)"
    by (simp_all add: list_all_iff)
  show ?thesis
  proof (cases "i < 0")
    case True
    then have s: "str_int i = CHR ''-'' # ?ds" by (simp add: str_int_def)
    have l: "\<not> py_isspace (last (CHR ''-'' # ?ds))"
      using ne dl by (simp add: is_decimal_not_space)
    have h: "\<not> py_isspace (hd (CHR ''-'' # ?ds))" by (simp add: py_isspace_def)
    have "strip ((CHR ''-'' # ?ds) @ [CHR 0x0A]) = CHR ''-'' # ?ds"
      by (rule strip_newline) (use h l in simp_all)
    then show ?thesis unfolding s .
  next
    case False
    then have s: "str_int i = ?ds" by (simp add: str_int_def)
    have "strip (?ds @ [CHR 0x0A]) = ?ds"
      by (rule strip_newline) (use ne dl dh in \<open>simp_all add: is_decimal_not_space\<close>)
    then show ?thesis unfolding s .
  qed
qed

lemma minus_not_isdigit: "\<not> isdigit (CHR ''-'' # ds)"
  by (simp add: isdigit_def py_isdigit_char_def is_decimal_def)

lemma resolver_listed_exact:
  assumes "az_aks_list e i = AksListed doc"
    and "jq_exact (jq_numbers (jq_collect doc))"
  shows "get_configured_aks_node_count e i n s =
           (if 0 \<le> (\<Sum>v\<leftarrow>jq_numbers (jq_collect doc). literal_int v)
            then ((\<Sum>v\<leftarrow>jq_numbers (jq_collect doc). literal_int v), invoke (AzAksList i) s)
            else (0, record_error (aks_error n i (''Unexpected output from AKS count pipe: ''
                        @ str_int (\<Sum>v\<leftarrow>jq_numbers (jq_collect doc). literal_int v)))
                      (invoke (AzAksList i) s)))"
proof (cases "jq_numbers (jq_collect doc) = []")
  case True
  then have "full_cmd e i = Inr (''null'' @ [CHR 0x0A])"
    using assms(1) by (simp add: full_cmd_def jq_sum_cmd_def jq_add_def jq_r_def)
  moreover have "strip (''null'' @ [CHR 0x0A]) = ''null''"
    by (simp add: strip_def py_isspace_def)
  moreover have "\<not> list_all is_decimal ''null''" by (simp add: is_decimal_def)
  ultimately show ?thesis using True
    by (simp add: resolver_cases[of e i n s] Let_def is_decimal_def)
next
  case False
  define S where "S = (\<Sum>v\<leftarrow>jq_numbers (jq_collect doc). literal_int v)"
  have f: "full_cmd e i = Inr (str_int S @ [CHR 0x0A])"
    using assms False by (simp add: full_cmd_def jq_sum_cmd_def jq_add_def jq_r_def S_def)
  have st: "strip (str_int S @ [CHR 0x0A]) = str_int S" by (rule strip_int_newline)
  show ?thesis
  proof (cases "0 \<le> S")
    case True
    then have s: "str_int S = str_nat (nat S)" by (simp add: str_int_def)
    have "int (decimal (str_nat (nat S))) = S" using True by (simp add: decimal_str_nat)
    then show ?thesis
      using True f st
      by (simp add: resolver_cases[of e i n s] Let_def s str_nat_nonempty str_nat_decimal
          S_def[symmetric])
  next
    case False
    then have s: "str_int S = CHR ''-'' # str_nat (nat (- S))" by (simp add: str_int_def)
    show ?thesis
      using False f st
      by (simp add: resolver_cases[of e i n s] Let_def s minus_not_isdigit sign_not_decimal
          S_def[symmetric])
  qed
qed

lemma example_numbers:
  "jq_numbers (jq_collect example_pools) = [JNum 5, JNum 2, JNum 4]"
  "numeric_max_counts example_pools"
  "jq_numbers (jq_collect negative_pools) = [JNum 5, JNum (- 7)]"
  "numeric_max_counts negative_pools"
  by code_simp+

lemma example_exact:
  "jq_exact (jq_numbers (jq_collect example_pools))"
  "jq_exact (jq_numbers (jq_collect negative_pools))"
  unfolding example_numbers by (simp_all add: jq_exact_def)

lemma example_count:
  "fst (get_configured_aks_node_count (aks_env (AksListed example_pools)) i n s) = 11"
proof -
  have "az_aks_list (aks_env (AksListed example_pools)) i = AksListed example_pools"
    by (simp add: aks_env_def)
  from resolver_listed_exact[OF this example_exact(1), of n s] show ?thesis
    by (simp add: example_numbers)
qed

text \<open>
  C1. When \<^verbatim>\<open>az aks list\<close> returns a cluster list in which every profile's
  \<^verbatim>\<open>maxCount\<close> is absent, null or a number, and the numbers that jq selects are integer
  literals that it adds and prints exactly, let the total be the sum, over every profile of
  every cluster, of the profile's \<^verbatim>\<open>maxCount\<close> if it is present and numeric, else of its
  \<^verbatim>\<open>count\<close> if it is present and numeric, else of nothing. When the total is not
  negative, the capacity resolver returns it and appends no error record; when it is
  negative, the digits-only check fails and the resolver returns 0 and appends one error
  record. For the node pools
  \<^verbatim>\<open>[{maxCount:5,count:3},{count:2},{maxCount:null,count:4}]\<close> the result is 11.
\<close>

theorem aks_node_count_sum:
  "(az_aks_list e subscription_id = AksListed doc \<and> numeric_max_counts doc
      \<and> jq_exact (jq_numbers (jq_collect doc)) \<longrightarrow>
      (0 \<le> total_nodes spec_profile_nodes doc \<longrightarrow>
         rat_of_int (fst (get_configured_aks_node_count e subscription_id subscription_name s))
           = total_nodes spec_profile_nodes doc
         \<and> error_list (snd (get_configured_aks_node_count e subscription_id subscription_name s))
           = error_list s)
      \<and> (total_nodes spec_profile_nodes doc < 0 \<longrightarrow>
         fst (get_configured_aks_node_count e subscription_id subscription_name s) = 0
         \<and> (\<exists>m. error_list (snd (get_configured_aks_node_count e subscription_id
                                      subscription_name s))
                 = error_list s @ [aks_error subscription_name subscription_id m])))
   \<and> fst (get_configured_aks_node_count (aks_env (AksListed example_pools))
             subscription_id subscription_name s) = 11"
proof (intro conjI impI)
  assume a: "az_aks_list e subscription_id = AksListed doc \<and> numeric_max_counts doc
      \<and> jq_exact (jq_numbers (jq_collect doc))"
  then have l: "az_aks_list e subscription_id = AksListed doc"
    and m: "numeric_max_counts doc" and x: "jq_exact (jq_numbers (jq_collect doc))"
    by simp_all
  define S where "S = (\<Sum>v\<leftarrow>jq_numbers (jq_collect doc). literal_int v)"
  from x have "list_all is_integer_literal (jq_numbers (jq_collect doc))"
    by (simp add: jq_exact_def)
  from exact_value[OF this] collect_spec[OF m]
  have t: "total_nodes spec_profile_nodes doc = rat_of_int S" by (simp add: S_def)
  note r = resolver_listed_exact[OF l x, of subscription_name s, folded S_def]
  {
    assume "0 \<le> total_nodes spec_profile_nodes doc"
    then have "0 \<le> S" by (simp add: t)
    then show "rat_of_int (fst (get_configured_aks_node_count e subscription_id
                   subscription_name s)) = total_nodes spec_profile_nodes doc"
      and "error_list (snd (get_configured_aks_node_count e subscription_id subscription_name s))
           = error_list s"
      by (simp_all add: r t)
  }
  {
    assume "total_nodes spec_profile_nodes doc < 0"
    then have "\<not> 0 \<le> S" by (simp add: t)
    then have n: "\<not> 0 \<le> S" .
    show "fst (get_configured_aks_node_count e subscription_id subscription_name s) = 0"
      using n by (simp add: r)
    have "error_list (snd (get_configured_aks_node_count e subscription_id subscription_name s))
            = error_list s @ [aks_error subscription_name subscription_id
                (''Unexpected output from AKS count pipe: '' @ str_int S)]"
      using n by (simp add: r)
    then show "\<exists>m. error_list (snd (get_configured_aks_node_count e subscription_id
                                      subscription_name s))
                 = error_list s @ [aks_error subscription_name subscription_id m]"
      by (rule exI)
  }
next
  show "fst (get_configured_aks_node_count (aks_env (AksListed example_pools))
             subscription_id subscription_name s) = 11"
    by (rule example_count)
qed

theorem aks_node_count_sum_witness:
  "az_aks_list (aks_env (AksListed example_pools)) ''sub-1'' = AksListed example_pools
   \<and> numeric_max_counts example_pools
   \<and> jq_exact (jq_numbers (jq_collect example_pools))
   \<and> 0 \<le> total_nodes spec_profile_nodes example_pools
   \<and> total_nodes spec_profile_nodes example_pools = 11
   \<and> rat_of_int (fst (get_configured_aks_node_count (aks_env (AksListed example_pools))
            ''sub-1'' ''Production'' initial_state)) = 11
   \<and> error_list (snd (get_configured_aks_node_count (aks_env (AksListed example_pools))
            ''sub-1'' ''Production'' initial_state)) = []
   \<and> az_aks_list (aks_env (AksListed negative_pools)) ''sub-1'' = AksListed negative_pools
   \<and> numeric_max_counts negative_pools
   \<and> jq_exact (jq_numbers (jq_collect negative_pools))
   \<and> total_nodes spec_profile_nodes negative_pools < 0
   \<and> fst (get_configured_aks_node_count (aks_env (AksListed negative_pools))
            ''sub-1'' ''Production'' initial_state) = 0
   \<and> (\<exists>m. error_list (snd (get_configured_aks_node_count (aks_env (AksListed negative_pools))
            ''sub-1'' ''Production'' initial_state))
          = [aks_error ''Production'' ''sub-1'' m])"
proof -
  have h1: "az_aks_list (aks_env (AksListed example_pools)) ''sub-1'' = AksListed example_pools"
    and h2: "az_aks_list (aks_env (AksListed negative_pools)) ''sub-1'' = AksListed negative_pools"
    by (simp_all add: aks_env_def)
  have t1: "total_nodes spec_profile_nodes example_pools = 11"
    and t2: "total_nodes spec_profile_nodes negative_pools = - 2"
    by (simp_all add: total_nodes_def spec_profile_nodes_def example_pools_def negative_pools_def
        agentPoolProfiles_def jq_field_def obj_member_def number_value_def)
  have e0: "error_list initial_state = []" by (simp add: initial_state_def)
  note a1 = aks_node_count_sum[of "aks_env (AksListed example_pools)" "''sub-1''" example_pools
      "''Production''" initial_state]
  note a2 = aks_node_count_sum[of "aks_env (AksListed negative_pools)" "''sub-1''" negative_pools
      "''Production''" initial_state]
  from a1 h1 example_numbers(2) example_exact(1) t1
  have r1: "rat_of_int (fst (get_configured_aks_node_count (aks_env (AksListed example_pools))
            ''sub-1'' ''Production'' initial_state)) = 11
    \<and> error_list (snd (get_configured_aks_node_count (aks_env (AksListed example_pools))
            ''sub-1'' ''Production'' initial_state)) = []"
    unfolding e0 by simp
  from a2 h2 example_numbers(4) example_exact(2) t2
  have r2: "fst (get_configured_aks_node_count (aks_env (AksListed negative_pools))
            ''sub-1'' ''Production'' initial_state) = 0
    \<and> (\<exists>m. error_list (snd (get_configured_aks_node_count (aks_env (AksListed negative_pools))
            ''sub-1'' ''Production'' initial_state))
          = [aks_error ''Production'' ''sub-1'' m])"
    unfolding e0 by simp
  have p1: "0 \<le> total_nodes spec_profile_nodes example_pools" by (simp add: t1)
  have p2: "total_nodes spec_profile_nodes negative_pools < 0" by (simp add: t2)
  from h1 example_numbers(2) example_exact(1) p1 t1 r1 h2 example_numbers(4) example_exact(2)
    p2 r2
  show ?thesis by (intro conjI) simp_all
qed

text \<open>
  For the node pools \<^verbatim>\<open>[{maxCount:5,count:3},{count:-7}]\<close> the total is -2. jq prints
  \<^verbatim>\<open>-2\<close>, which is not a string of digits, and the resolver returns 0.
\<close>

theorem aks_node_count_negative_counterexample:
  "total_nodes spec_profile_nodes negative_pools = - 2
   \<and> fst (get_configured_aks_node_count (aks_env (AksListed negative_pools))
          ''sub-1'' ''Production'' initial_state) = 0"
proof -
  have a: "az_aks_list (aks_env (AksListed negative_pools)) ''sub-1'' = AksListed negative_pools"
    by (simp add: aks_env_def)
  have "total_nodes spec_profile_nodes negative_pools = - 2"
    by (simp add: total_nodes_def spec_profile_nodes_def negative_pools_def
        agentPoolProfiles_def jq_field_def obj_member_def number_value_def)
  moreover have "fst (get_configured_aks_node_count (aks_env (AksListed negative_pools))
          ''sub-1'' ''Production'' initial_state) = 0"
    using resolver_listed_exact[OF a example_exact(2), of "''Production''" initial_state]
    by (simp add: example_numbers)
  ultimately show ?thesis by simp
qed

text \<open>
  C3. The capacity resolver classifies the stripped text of its pipe: a string of decimal
  digits yields that integer and no error record; the empty string and \<^verbatim>\<open>null\<close> yield 0
  and no error record; any other text yields 0 and exactly one error record appended, which
  starts with the subscription's name and id.
\<close>

theorem aks_raw_result_classification:
  assumes "full_cmd e subscription_id = Inr out"
  shows
    "(strip out \<noteq> [] \<and> list_all is_decimal (strip out) \<longrightarrow>
        fst (get_configured_aks_node_count e subscription_id subscription_name s)
          = int (decimal (strip out))
        \<and> error_list (snd (get_configured_aks_node_count e subscription_id subscription_name s))
          = error_list s)
     \<and> (strip out = [] \<or> strip out = ''null'' \<longrightarrow>
        fst (get_configured_aks_node_count e subscription_id subscription_name s) = 0
        \<and> error_list (snd (get_configured_aks_node_count e subscription_id subscription_name s))
          = error_list s)
     \<and> (\<not> list_all is_decimal (strip out) \<and> strip out \<noteq> [] \<and> strip out \<noteq> ''null'' \<longrightarrow>
        fst (get_configured_aks_node_count e subscription_id subscription_name s) = 0
        \<and> (\<exists>m. error_list (snd (get_configured_aks_node_count e subscription_id
                                    subscription_name s))
               = error_list s @ [subscription_name @ '' ('' @ subscription_id
                   @ '') - Failed to execute or parse configured AKS node count. Error: ''
                   @ m]))"
proof -
  have n: "\<not> list_all is_decimal ''null''" by (simp add: is_decimal_def)
  show ?thesis
    using assms n
    by (auto simp add: resolver_cases[of e subscription_id subscription_name s] Let_def
        aks_error_def)
qed

theorem aks_raw_result_classification_witness:
  "full_cmd (aks_env (AksText ''42'')) ''sub-1'' = Inr ''42''
   \<and> fst (get_configured_aks_node_count (aks_env (AksText ''42'')) ''sub-1'' ''Production''
         initial_state) = 42
   \<and> error_list (snd (get_configured_aks_node_count (aks_env (AksText ''42'')) ''sub-1''
         ''Production'' initial_state)) = []
   \<and> full_cmd (aks_env (AksText ''null'')) ''sub-1'' = Inr ''null''
   \<and> fst (get_configured_aks_node_count (aks_env (AksText ''null'')) ''sub-1'' ''Production''
         initial_state) = 0
   \<and> error_list (snd (get_configured_aks_node_count (aks_env (AksText ''null'')) ''sub-1''
         ''Production'' initial_state)) = []
   \<and> full_cmd (aks_env (AksText ''ERROR'')) ''sub-1'' = Inr ''ERROR''
   \<and> fst (get_configured_aks_node_count (aks_env (AksText ''ERROR'')) ''sub-1'' ''Production''
         initial_state) = 0
   \<and> (\<exists>m. error_list (snd (get_configured_aks_node_count (aks_env (AksText ''ERROR''))
         ''sub-1'' ''Production'' initial_state))
        = [''Production (sub-1) - Failed to execute or parse configured AKS node count. Error: '' @ m])"
proof -
  have h1: "full_cmd (aks_env (AksText ''42'')) ''sub-1'' = Inr ''42''"
    and h2: "full_cmd (aks_env (AksText ''null'')) ''sub-1'' = Inr ''null''"
    and h3: "full_cmd (aks_env (AksText ''ERROR'')) ''sub-1'' = Inr ''ERROR''"
    by (simp_all add: full_cmd_def aks_env_def)
  have st: "strip ''42'' = ''42''" "strip ''null'' = ''null''" "strip ''ERROR'' = ''ERROR''"
    by (simp_all add: strip_def py_isspace_def)
  have d1: "strip ''42'' \<noteq> [] \<and> list_all is_decimal (strip ''42'')"
    by (simp add: st is_decimal_def)
  have v: "int (decimal (strip ''42'')) = 42" by (simp add: st decimal_def digit_val_def)
  have d2: "strip ''null'' = [] \<or> strip ''null'' = ''null''" by (simp add: st)
  have d3: "\<not> list_all is_decimal (strip ''ERROR'') \<and> strip ''ERROR'' \<noteq> []
             \<and> strip ''ERROR'' \<noteq> ''null''"
    by (simp add: st is_decimal_def)
  have e: "error_list initial_state = []" by (simp add: initial_state_def)
  from aks_raw_result_classification[OF h1, of "''Production''" initial_state] d1
  have r1: "fst (get_configured_aks_node_count (aks_env (AksText ''42'')) ''sub-1'' ''Production''
         initial_state) = 42
    \<and> error_list (snd (get_configured_aks_node_count (aks_env (AksText ''42'')) ''sub-1''
         ''Production'' initial_state)) = []"
    unfolding v e by blast
  from aks_raw_result_classification[OF h2, of "''Production''" initial_state] d2
  have r2: "fst (get_configured_aks_node_count (aks_env (AksText ''null'')) ''sub-1''
         ''Production'' initial_state) = 0
    \<and> error_list (snd (get_configured_aks_node_count (aks_env (AksText ''null'')) ''sub-1''
         ''Production'' initial_state)) = []"
    unfolding e by blast
  from aks_raw_result_classification[OF h3, of "''Production''" initial_state] d3
  have r3: "fst (get_configured_aks_node_count (aks_env (AksText ''ERROR'')) ''sub-1''
         ''Production'' initial_state) = 0
    \<and> (\<exists>m. error_list (snd (get_configured_aks_node_count (aks_env (AksText ''ERROR''))
         ''sub-1'' ''Production'' initial_state))
        = [] @ [''Production'' @ '' ('' @ ''sub-1''
                   @ '') - Failed to execute or parse configured AKS node count. Error: ''
                   @ m])"
    unfolding e by blast
  from r3 have r3': "fst (get_configured_aks_node_count (aks_env (AksText ''ERROR'')) ''sub-1''
         ''Production'' initial_state) = 0
    \<and> (\<exists>m. error_list (snd (get_configured_aks_node_count (aks_env (AksText ''ERROR''))
         ''sub-1'' ''Production'' initial_state))
        = [''Production (sub-1) - Failed to execute or parse configured AKS node count. Error: '' @ m])"
    by simp
  from h1 r1 h2 r2 h3 r3' show ?thesis by blast
qed



section \<open>Properties of the scan loop\<close>

lemma table_category:
  assumes "map_of RESOURCE_TO_CATEGORY t = Some c"
  shows "c \<noteq> []"
    and "c = cat_aks \<Longrightarrow> t = ''microsoft.containerservice/managedclusters''"
    and "c = cat_vm \<Longrightarrow> t = ''microsoft.compute/virtualmachines''"
    and "c \<noteq> cat_functions"
proof -
  from assms have m: "(t, c) \<in> set RESOURCE_TO_CATEGORY" by (rule map_of_SomeD)
  then show "c \<noteq> []" by (auto simp: RESOURCE_TO_CATEGORY_def)
  from m show "c = cat_aks \<Longrightarrow> t = ''microsoft.containerservice/managedclusters''"
    by (auto simp: RESOURCE_TO_CATEGORY_def)
  from m show "c = cat_vm \<Longrightarrow> t = ''microsoft.compute/virtualmachines''"
    by (auto simp: RESOURCE_TO_CATEGORY_def)
  from m show "c \<noteq> cat_functions" by (auto simp: RESOURCE_TO_CATEGORY_def)
qed

lemma resolver_fst_indep:
  "fst (get_configured_aks_node_count e i n s) = fst (get_configured_aks_node_count e i n t)"
  by (simp add: resolver_cases Let_def split: sum.splits)

lemma resolver_frame:
  "snd (get_configured_aks_node_count e i n s) =
     s\<lparr>error_list := error_list (snd (get_configured_aks_node_count e i n s)),
       calls := calls s @ [AzAksList i]\<rparr>"
  by (simp add: resolver_cases Let_def invoke_def record_error_def split: sum.splits)

lemma resolver_fields:
  "calls (snd (get_configured_aks_node_count e i n s)) = calls s @ [AzAksList i]"
  "sub_census (snd (get_configured_aks_node_count e i n s)) = sub_census s"
  "aks_counted_flag (snd (get_configured_aks_node_count e i n s)) = aks_counted_flag s"
  "global_totals (snd (get_configured_aks_node_count e i n s)) = global_totals s"
  "requested_order (snd (get_configured_aks_node_count e i n s)) = requested_order s"
  "stdout (snd (get_configured_aks_node_count e i n s)) = stdout s"
  by (subst resolver_frame, simp)+

lemma scan_step_cluster_first:
  assumes "lower (rtype r) = ''microsoft.containerservice/managedclusters''"
    and "\<not> aks_counted_flag s"
  shows "scan_step e i n r s =
           (snd (get_configured_aks_node_count e i n
                   (py_print ''  Counting POTENTIAL (Max Capacity) AKS Nodes...'' s)))
             \<lparr>sub_census := (sub_census s)(cat_aks \<mapsto> fst (get_configured_aks_node_count e i n s)),
              aks_counted_flag := True\<rparr>"
  using assms
    resolver_fst_indep[of e i n "py_print ''  Counting POTENTIAL (Max Capacity) AKS Nodes...'' s" s]
  by (simp add: scan_step_def Let_def case_prod_beta resolver_fields py_print_def)

lemma scan_step_cluster_again:
  assumes "lower (rtype r) = ''microsoft.containerservice/managedclusters''"
    and "aks_counted_flag s"
  shows "scan_step e i n r s = s"
  using assms by (simp add: scan_step_def)

lemma scan_step_sites:
  assumes "lower (rtype r) = ''microsoft.web/sites''"
  shows "scan_step e i n r s =
           (case kind r of
              None \<Rightarrow> s
            | Some k \<Rightarrow> if k \<noteq> [] \<and> sublist function_kind (lower k)
                        then increment cat_functions s else s)"
  using assms by (simp add: scan_step_def)

lemma scan_step_skip:
  assumes "lower (rtype r) = ''microsoft.compute/virtualmachines''
           \<or> lower (rtype r) = ''microsoft.synapse/workspaces''"
  shows "scan_step e i n r s = s"
  using assms by (auto simp add: scan_step_def)

lemma scan_step_lookup:
  assumes "lower (rtype r) \<noteq> ''microsoft.containerservice/managedclusters''"
    and "lower (rtype r) \<noteq> ''microsoft.web/sites''"
    and "lower (rtype r) \<noteq> ''microsoft.compute/virtualmachines''"
    and "lower (rtype r) \<noteq> ''microsoft.synapse/workspaces''"
  shows "scan_step e i n r s =
           (case map_of RESOURCE_TO_CATEGORY (lower (rtype r)) of
              None \<Rightarrow> s
            | Some category \<Rightarrow> increment category s)"
  using assms by (auto simp add: scan_step_def Let_def table_category(1) split: option.splits)

lemma functionapp_nonempty: "sublist function_kind t \<Longrightarrow> t \<noteq> []"
  by (auto simp: function_kind_def)

lemma lower_samples:
  "lower ''Microsoft.Web/sites'' = ''microsoft.web/sites''"
  "lower ''functionapp,linux'' = ''functionapp,linux''"
  "lower ''app'' = ''app''"
  "lower ''Microsoft.Storage/storageAccounts'' = ''microsoft.storage/storageaccounts''"
  "lower ''microsoft.storage/storageaccounts'' = ''microsoft.storage/storageaccounts''"
  "lower ''Microsoft.Compute/virtualMachines'' = ''microsoft.compute/virtualmachines''"
  "lower ''Microsoft.Synapse/workspaces'' = ''microsoft.synapse/workspaces''"
  "lower ''Microsoft.ContainerService/managedClusters'' = ''microsoft.containerservice/managedclusters''"
  "lower ''Microsoft.Storage'' = ''microsoft.storage''"
  "lower ''Microsoft.Storage/storageAccounts/blobServices'' = ''microsoft.storage/storageaccounts/blobservices''"
  by code_simp+

lemma sublist_samples:
  "sublist function_kind ''functionapp,linux''"
  "\<not> sublist function_kind ''app''"
  by (simp_all add: function_kind_def sublist_code prefix_code)

text \<open>
  C4. For a descriptor whose lower-cased type is \<^verbatim>\<open>microsoft.web/sites\<close>: when its kind is
  present and its lower-cased value contains \<^verbatim>\<open>functionapp\<close>, a Serverless Functions
  count of \<open>n\<close> becomes \<open>n + 1\<close> and nothing else changes; otherwise (no marker, or no kind)
  the state is left as it is.
\<close>

theorem serverless_detection:
  assumes "lower (rtype r) = ''microsoft.web/sites''"
  shows "((\<exists>k. kind r = Some k \<and> sublist function_kind (lower k))
            \<and> sub_census s cat_functions = Some n \<longrightarrow>
          scan_step e subscription_id subscription_name r s
            = s\<lparr>sub_census := (sub_census s)(cat_functions \<mapsto> n + 1)\<rparr>)
         \<and> (\<not> (\<exists>k. kind r = Some k \<and> sublist function_kind (lower k)) \<longrightarrow>
          scan_step e subscription_id subscription_name r s = s)"
proof (cases "kind r")
  case None
  then show ?thesis using assms by (simp add: scan_step_sites)
next
  case (Some k)
  have "sublist function_kind (lower k) \<Longrightarrow> k \<noteq> []"
    using functionapp_nonempty[of "lower k"] by (auto simp: lower_def)
  then show ?thesis using assms Some
    by (auto simp add: scan_step_sites increment_def dict_get_def)
qed

theorem serverless_detection_witness:
  "lower (rtype function_app) = ''microsoft.web/sites''
   \<and> (\<exists>k. kind function_app = Some k \<and> sublist function_kind (lower k))
   \<and> sub_census busy_scan cat_functions = Some 4
   \<and> scan_step (aks_env (AksText [])) ''sub-1'' ''Production'' function_app busy_scan
       = busy_scan\<lparr>sub_census := (sub_census busy_scan)(cat_functions \<mapsto> 5)\<rparr>
   \<and> sub_census (scan_step (aks_env (AksText [])) ''sub-1'' ''Production'' function_app
         busy_scan) cat_functions = Some 5
   \<and> sub_census (scan_step (aks_env (AksText [])) ''sub-1'' ''Production'' function_app
         busy_scan) cat_buckets = Some 2
   \<and> lower (rtype web_app) = ''microsoft.web/sites''
   \<and> \<not> (\<exists>k. kind web_app = Some k \<and> sublist function_kind (lower k))
   \<and> scan_step (aks_env (AksText [])) ''sub-1'' ''Production'' web_app busy_scan = busy_scan
   \<and> lower (rtype bare_site) = ''microsoft.web/sites''
   \<and> \<not> (\<exists>k. kind bare_site = Some k \<and> sublist function_kind (lower k))
   \<and> scan_step (aks_env (AksText [])) ''sub-1'' ''Production'' bare_site busy_scan = busy_scan"
proof -
  let ?e = "aks_env (AksText [])"
  have h1: "lower (rtype function_app) = ''microsoft.web/sites''"
    and h2: "lower (rtype web_app) = ''microsoft.web/sites''"
    and h3: "lower (rtype bare_site) = ''microsoft.web/sites''"
    by (simp_all add: function_app_def web_app_def bare_site_def lower_samples)
  have m1: "\<exists>k. kind function_app = Some k \<and> sublist function_kind (lower k)"
    by (simp add: function_app_def lower_samples sublist_samples)
  have m2: "\<not> (\<exists>k. kind web_app = Some k \<and> sublist function_kind (lower k))"
    by (simp add: web_app_def lower_samples sublist_samples)
  have m3: "\<not> (\<exists>k. kind bare_site = Some k \<and> sublist function_kind (lower k))"
    by (simp add: bare_site_def)
  have c: "sub_census busy_scan cat_functions = Some 4"
    and b: "sub_census busy_scan cat_buckets = Some 2"
    by (simp_all add: busy_scan_def)
  from serverless_detection[OF h1, of busy_scan 4 ?e "''sub-1''" "''Production''"] m1 c
  have r1: "scan_step ?e ''sub-1'' ''Production'' function_app busy_scan
       = busy_scan\<lparr>sub_census := (sub_census busy_scan)(cat_functions \<mapsto> 5)\<rparr>"
    by simp
  have r1a: "sub_census (scan_step ?e ''sub-1'' ''Production'' function_app busy_scan)
       cat_functions = Some 5"
    and r1b: "sub_census (scan_step ?e ''sub-1'' ''Production'' function_app busy_scan)
       cat_buckets = Some 2"
    unfolding r1 using b by simp_all
  from serverless_detection[OF h2, of busy_scan 4 ?e "''sub-1''" "''Production''"] m2
  have r2: "scan_step ?e ''sub-1'' ''Production'' web_app busy_scan = busy_scan"
    by simp
  from serverless_detection[OF h3, of busy_scan 4 ?e "''sub-1''" "''Production''"] m3
  have r3: "scan_step ?e ''sub-1'' ''Production'' bare_site busy_scan = busy_scan"
    by simp
  from h1 m1 c r1 r1a r1b h2 m2 r2 h3 m3 r3 show ?thesis by (intro conjI)
qed

text \<open>
  C7. A descriptor whose lower-cased type is the VM type or the Synapse workspace type
  leaves the state, and so every category count, as it is.
\<close>

theorem skipped_types_unchanged:
  assumes "lower (rtype r) = ''microsoft.compute/virtualmachines''
           \<or> lower (rtype r) = ''microsoft.synapse/workspaces''"
  shows "scan_step e subscription_id subscription_name r s = s"
  using assms by (rule scan_step_skip)

theorem skipped_types_unchanged_witness:
  "(lower (rtype \<lparr>rtype = ''Microsoft.Compute/virtualMachines'', kind = None\<rparr>)
       = ''microsoft.compute/virtualmachines''
    \<or> lower (rtype \<lparr>rtype = ''Microsoft.Compute/virtualMachines'', kind = None\<rparr>)
       = ''microsoft.synapse/workspaces'')
   \<and> scan_step (aks_env (AksText [])) ''sub-1'' ''Production''
         \<lparr>rtype = ''Microsoft.Compute/virtualMachines'', kind = None\<rparr> fresh_scan = fresh_scan
   \<and> scan_step (aks_env (AksText [])) ''sub-1'' ''Production''
         \<lparr>rtype = ''Microsoft.Synapse/workspaces'', kind = None\<rparr> fresh_scan = fresh_scan"
proof -
  have h1: "lower (rtype \<lparr>rtype = ''Microsoft.Compute/virtualMachines'', kind = None\<rparr>)
       = ''microsoft.compute/virtualmachines''
    \<or> lower (rtype \<lparr>rtype = ''Microsoft.Compute/virtualMachines'', kind = None\<rparr>)
       = ''microsoft.synapse/workspaces''"
    by (simp add: lower_samples)
  have h2: "lower (rtype \<lparr>rtype = ''Microsoft.Synapse/workspaces'', kind = None\<rparr>)
       = ''microsoft.compute/virtualmachines''
    \<or> lower (rtype \<lparr>rtype = ''Microsoft.Synapse/workspaces'', kind = None\<rparr>)
       = ''microsoft.synapse/workspaces''"
    by (simp add: lower_samples)
  from skipped_types_unchanged[OF h1] skipped_types_unchanged[OF h2] h1
  show ?thesis by blast
qed

text \<open>
  C9. A \<^verbatim>\<open>microsoft.web/sites\<close> descriptor whose kind is the empty string is dropped,
  exactly as one with no kind.
\<close>

theorem empty_kind_dropped:
  assumes "lower (rtype r) = ''microsoft.web/sites''" and "kind r = Some []"
  shows "scan_step e subscription_id subscription_name r s = s
         \<and> scan_step e subscription_id subscription_name r s
             = scan_step e subscription_id subscription_name (r\<lparr>kind := None\<rparr>) s"
  using assms by (simp add: scan_step_sites)

theorem empty_kind_dropped_witness:
  "lower (rtype empty_kind_site) = ''microsoft.web/sites'' \<and> kind empty_kind_site = Some []
   \<and> scan_step (aks_env (AksText [])) ''sub-1'' ''Production'' empty_kind_site fresh_scan
       = fresh_scan
   \<and> scan_step (aks_env (AksText [])) ''sub-1'' ''Production'' empty_kind_site fresh_scan
       = scan_step (aks_env (AksText [])) ''sub-1'' ''Production''
           (empty_kind_site\<lparr>kind := None\<rparr>) fresh_scan"
proof -
  have h: "lower (rtype empty_kind_site) = ''microsoft.web/sites''"
    and k: "kind empty_kind_site = Some []"
    by (simp_all add: empty_kind_site_def lower_samples)
  from empty_kind_dropped[OF h k] h k show ?thesis by blast
qed

lemma scan_step_other:
  assumes nc: "\<not> is_cluster r"
  shows "scan_step e i n r s = s \<or>
        (\<exists>c. c \<noteq> cat_aks \<and> c \<noteq> cat_vm \<and> scan_step e i n r s = increment c s)"
proof (cases "lower (rtype r) = ''microsoft.web/sites''")
  case True
  have "scan_step e i n r s = s \<or> scan_step e i n r s = increment cat_functions s"
    unfolding scan_step_sites[OF True] by (simp split: option.splits)
  then show ?thesis
  proof
    assume "scan_step e i n r s = s"
    then show ?thesis by simp
  next
    assume "scan_step e i n r s = increment cat_functions s"
    then show ?thesis by (intro disjI2 exI[of _ cat_functions]) simp
  qed
next
  case ns: False
  show ?thesis
  proof (cases "lower (rtype r) = ''microsoft.compute/virtualmachines''
           \<or> lower (rtype r) = ''microsoft.synapse/workspaces''")
    case True
    then have "scan_step e i n r s = s" by (rule scan_step_skip)
    then show ?thesis by simp
  next
    case False
    from nc have c: "lower (rtype r) \<noteq> ''microsoft.containerservice/managedclusters''"
      by (simp add: is_cluster_def)
    from False have v: "lower (rtype r) \<noteq> ''microsoft.compute/virtualmachines''"
      and w: "lower (rtype r) \<noteq> ''microsoft.synapse/workspaces''" by simp_all
    note eq = scan_step_lookup[OF c ns v w, of e i n s]
    show ?thesis
    proof (cases "map_of RESOURCE_TO_CATEGORY (lower (rtype r))")
      case None
      with eq have "scan_step e i n r s = s" by simp
      then show ?thesis by simp
    next
      case (Some c')
      with eq have "scan_step e i n r s = increment c' s" by simp
      moreover have "c' \<noteq> cat_aks"
      proof
        assume "c' = cat_aks"
        from table_category(2)[OF Some this] c show False by simp
      qed
      moreover have "c' \<noteq> cat_vm"
      proof
        assume "c' = cat_vm"
        from table_category(3)[OF Some this] v show False by simp
      qed
      ultimately show ?thesis by (intro disjI2 exI[of _ c']) simp
    qed
  qed
qed

lemma increment_fields:
  "global_totals (increment c s) = global_totals s"
  "requested_order (increment c s) = requested_order s"
  "calls (increment c s) = calls s"
  "aks_counted_flag (increment c s) = aks_counted_flag s"
  "error_list (increment c s) = error_list s"
  "stdout (increment c s) = stdout s"
  "k \<noteq> c \<Longrightarrow> sub_census (increment c s) k = sub_census s k"
  by (simp_all add: increment_def)

lemma resolver_error_prefix:
  "prefix (error_list s) (error_list (snd (get_configured_aks_node_count e i n s)))"
  by (simp add: resolver_cases Let_def split: sum.splits)

lemma scan_step_fields_first:
  assumes "is_cluster r" "\<not> aks_counted_flag s"
  shows "global_totals (scan_step e i n r s) = global_totals s"
    "requested_order (scan_step e i n r s) = requested_order s"
    "calls (scan_step e i n r s) = calls s @ [AzAksList i]"
    "aks_counted_flag (scan_step e i n r s)"
    "sub_census (scan_step e i n r s) cat_aks = Some (fst (get_configured_aks_node_count e i n t))"
    "sub_census (scan_step e i n r s) cat_vm = sub_census s cat_vm"
    "prefix (error_list s) (error_list (scan_step e i n r s))"
proof -
  let ?p = "py_print ''  Counting POTENTIAL (Max Capacity) AKS Nodes...'' s"
  have ep: "prefix (error_list s) (error_list (snd (get_configured_aks_node_count e i n ?p)))"
    using resolver_error_prefix[of ?p e i n] by (simp add: py_print_def)
  from assms have c: "lower (rtype r) = ''microsoft.containerservice/managedclusters''"
    by (simp add: is_cluster_def)
  note eq = scan_step_cluster_first[OF c assms(2), of e i n]
  show "global_totals (scan_step e i n r s) = global_totals s"
    "requested_order (scan_step e i n r s) = requested_order s"
    "calls (scan_step e i n r s) = calls s @ [AzAksList i]"
    "aks_counted_flag (scan_step e i n r s)"
    "sub_census (scan_step e i n r s) cat_vm = sub_census s cat_vm"
    unfolding eq by (simp_all add: resolver_fields py_print_def)
  show "sub_census (scan_step e i n r s) cat_aks = Some (fst (get_configured_aks_node_count e i n t))"
    unfolding eq using resolver_fst_indep[of e i n s t] by simp
  show "prefix (error_list s) (error_list (scan_step e i n r s))"
    unfolding eq using ep by simp
qed

lemma scan_step_fields_rest:
  assumes "\<not> (is_cluster r \<and> \<not> aks_counted_flag s)"
  shows "global_totals (scan_step e i n r s) = global_totals s"
    "requested_order (scan_step e i n r s) = requested_order s"
    "calls (scan_step e i n r s) = calls s"
    "aks_counted_flag (scan_step e i n r s) = aks_counted_flag s"
    "sub_census (scan_step e i n r s) cat_aks = sub_census s cat_aks"
    "sub_census (scan_step e i n r s) cat_vm = sub_census s cat_vm"
    "error_list (scan_step e i n r s) = error_list s"
    "stdout (scan_step e i n r s) = stdout s"
proof -
  have "scan_step e i n r s = s \<or>
        (\<exists>c. c \<noteq> cat_aks \<and> c \<noteq> cat_vm \<and> scan_step e i n r s = increment c s)"
  proof (cases "is_cluster r")
    case True
    with assms have "aks_counted_flag s" by simp
    with True have "scan_step e i n r s = s"
      by (simp add: scan_step_cluster_again is_cluster_def)
    then show ?thesis by simp
  next
    case False
    then show ?thesis by (rule scan_step_other)
  qed
  then consider "scan_step e i n r s = s"
    | c where "c \<noteq> cat_aks" "c \<noteq> cat_vm" "scan_step e i n r s = increment c s"
    by auto
  then have "global_totals (scan_step e i n r s) = global_totals s
    \<and> requested_order (scan_step e i n r s) = requested_order s
    \<and> calls (scan_step e i n r s) = calls s
    \<and> aks_counted_flag (scan_step e i n r s) = aks_counted_flag s
    \<and> sub_census (scan_step e i n r s) cat_aks = sub_census s cat_aks
    \<and> sub_census (scan_step e i n r s) cat_vm = sub_census s cat_vm
    \<and> error_list (scan_step e i n r s) = error_list s
    \<and> stdout (scan_step e i n r s) = stdout s"
  proof cases
    case 1
    then show ?thesis by simp
  next
    case 2
    have "sub_census (increment c s) cat_aks = sub_census s cat_aks"
      "sub_census (increment c s) cat_vm = sub_census s cat_vm"
      using 2(1,2) by (simp_all add: increment_def)
    then show ?thesis unfolding 2(3) by (simp add: increment_fields(1-6))
  qed
  then show "global_totals (scan_step e i n r s) = global_totals s"
    "requested_order (scan_step e i n r s) = requested_order s"
    "calls (scan_step e i n r s) = calls s"
    "aks_counted_flag (scan_step e i n r s) = aks_counted_flag s"
    "sub_census (scan_step e i n r s) cat_aks = sub_census s cat_aks"
    "sub_census (scan_step e i n r s) cat_vm = sub_census s cat_vm"
    "error_list (scan_step e i n r s) = error_list s"
    "stdout (scan_step e i n r s) = stdout s"
    by simp_all
qed

lemma scan_resources_globals:
  "global_totals (scan_resources e i n rs s) = global_totals s
   \<and> requested_order (scan_resources e i n rs s) = requested_order s
   \<and> sub_census (scan_resources e i n rs s) cat_vm = sub_census s cat_vm"
proof (induction rs arbitrary: s)
  case Nil
  show ?case by simp
next
  case (Cons r rs)
  show ?case
    by (cases "is_cluster r \<and> \<not> aks_counted_flag s")
       (simp_all add: Cons.IH scan_step_fields_first(1,2,6) scan_step_fields_rest(1,2,6))
qed

lemma scan_resources_flag:
  "aks_counted_flag (scan_resources e i n rs s) = (aks_counted_flag s \<or> (\<exists>r\<in>set rs. is_cluster r))"
proof (induction rs arbitrary: s)
  case Nil
  show ?case by simp
next
  case (Cons r rs)
  show ?case
  proof (cases "is_cluster r \<and> \<not> aks_counted_flag s")
    case True
    then show ?thesis by (simp add: Cons.IH scan_step_fields_first(4))
  next
    case False
    then show ?thesis by (auto simp add: Cons.IH scan_step_fields_rest(4))
  qed
qed

lemma scan_resources_calls:
  "calls (scan_resources e i n rs s) =
     calls s @ (if (\<exists>r\<in>set rs. is_cluster r) \<and> \<not> aks_counted_flag s then [AzAksList i] else [])"
proof (induction rs arbitrary: s)
  case Nil
  show ?case by simp
next
  case (Cons r rs)
  show ?case
  proof (cases "is_cluster r \<and> \<not> aks_counted_flag s")
    case True
    then show ?thesis by (simp add: Cons.IH scan_step_fields_first(3,4))
  next
    case False
    then show ?thesis by (auto simp add: Cons.IH scan_step_fields_rest(3,4))
  qed
qed

lemma scan_resources_aks:
  "sub_census (scan_resources e i n rs s) cat_aks =
     (if (\<exists>r\<in>set rs. is_cluster r) \<and> \<not> aks_counted_flag s
      then Some (fst (get_configured_aks_node_count e i n t)) else sub_census s cat_aks)"
proof (induction rs arbitrary: s)
  case Nil
  show ?case by simp
next
  case (Cons r rs)
  show ?case
  proof (cases "is_cluster r \<and> \<not> aks_counted_flag s")
    case True
    then show ?thesis
      by (simp add: Cons.IH scan_step_fields_first(4) scan_step_fields_first(5)[of r s e i n t])
  next
    case False
    then show ?thesis
      by (auto simp add: Cons.IH scan_step_fields_rest(4,5))
  qed
qed

lemma scan_resources_errors:
  "prefix (error_list s) (error_list (scan_resources e i n rs s))"
proof (induction rs arbitrary: s)
  case Nil
  show ?case by simp
next
  case (Cons r rs)
  have "prefix (error_list s) (error_list (scan_step e i n r s))"
    by (cases "is_cluster r \<and> \<not> aks_counted_flag s")
       (simp_all add: scan_step_fields_first(7) scan_step_fields_rest(7))
  also have "prefix (error_list (scan_step e i n r s))
      (error_list (scan_resources e i n rs (scan_step e i n r s)))"
    by (rule Cons.IH)
  finally show ?case by simp
qed

lemma sample_clusters:
  "is_cluster managed_cluster" "\<not> is_cluster storage_account" "\<not> is_cluster function_app"
  by (simp_all add: is_cluster_def managed_cluster_def storage_account_def function_app_def
      lower_samples)

text \<open>
  C2. In the scan of one subscription's resource list, which starts with the flag unset, the
  first cluster descriptor invokes the capacity resolver once and stores its result as the
  Container Hosts count; a cluster descriptor met when the flag is set leaves the whole
  state as it is. So the scan of a list invokes the resolver exactly once when the list has
  a cluster descriptor and never otherwise, the Container Hosts count at the end is the
  resolver's result, and the flag is set from the first cluster descriptor on.
\<close>

theorem aks_resolver_once_per_subscription:
  "(is_cluster r \<and> \<not> aks_counted_flag s \<longrightarrow>
      calls (scan_step e subscription_id subscription_name r s)
        = calls s @ [AzAksList subscription_id]
      \<and> sub_census (scan_step e subscription_id subscription_name r s) cat_aks
        = Some (fst (get_configured_aks_node_count e subscription_id subscription_name s))
      \<and> aks_counted_flag (scan_step e subscription_id subscription_name r s))
   \<and> (is_cluster r \<and> aks_counted_flag s \<longrightarrow>
      scan_step e subscription_id subscription_name r s = s)
   \<and> (\<not> aks_counted_flag s \<longrightarrow>
      calls (scan_resources e subscription_id subscription_name rs s)
        = calls s @ (if \<exists>r\<in>set rs. is_cluster r then [AzAksList subscription_id] else [])
      \<and> sub_census (scan_resources e subscription_id subscription_name rs s) cat_aks
        = (if \<exists>r\<in>set rs. is_cluster r
           then Some (fst (get_configured_aks_node_count e subscription_id subscription_name s))
           else sub_census s cat_aks)
      \<and> aks_counted_flag (scan_resources e subscription_id subscription_name rs s)
        = (\<exists>r\<in>set rs. is_cluster r))"
proof (intro conjI impI)
  assume a: "is_cluster r \<and> \<not> aks_counted_flag s"
  then have c: "is_cluster r" and f: "\<not> aks_counted_flag s" by simp_all
  show "calls (scan_step e subscription_id subscription_name r s)
        = calls s @ [AzAksList subscription_id]"
    by (rule scan_step_fields_first(3)[OF c f])
  show "sub_census (scan_step e subscription_id subscription_name r s) cat_aks
        = Some (fst (get_configured_aks_node_count e subscription_id subscription_name s))"
    by (rule scan_step_fields_first(5)[OF c f])
  show "aks_counted_flag (scan_step e subscription_id subscription_name r s)"
    by (rule scan_step_fields_first(4)[OF c f])
next
  assume "is_cluster r \<and> aks_counted_flag s"
  then show "scan_step e subscription_id subscription_name r s = s"
    by (simp add: scan_step_cluster_again is_cluster_def)
next
  assume f: "\<not> aks_counted_flag s"
  show "calls (scan_resources e subscription_id subscription_name rs s)
        = calls s @ (if \<exists>r\<in>set rs. is_cluster r then [AzAksList subscription_id] else [])"
    using f by (simp add: scan_resources_calls)
  show "sub_census (scan_resources e subscription_id subscription_name rs s) cat_aks
        = (if \<exists>r\<in>set rs. is_cluster r
           then Some (fst (get_configured_aks_node_count e subscription_id subscription_name s))
           else sub_census s cat_aks)"
    using f by (simp add: scan_resources_aks[of e subscription_id subscription_name rs s s])
  show "aks_counted_flag (scan_resources e subscription_id subscription_name rs s)
        = (\<exists>r\<in>set rs. is_cluster r)"
    using f by (simp add: scan_resources_flag)
qed

theorem aks_resolver_once_per_subscription_witness:
  "is_cluster managed_cluster \<and> \<not> aks_counted_flag fresh_scan
   \<and> calls (scan_step (aks_env (AksListed example_pools)) ''sub-1'' ''Production''
        managed_cluster fresh_scan) = [AzAksList ''sub-1'']
   \<and> sub_census (scan_step (aks_env (AksListed example_pools)) ''sub-1'' ''Production''
        managed_cluster fresh_scan) cat_aks = Some 11
   \<and> aks_counted_flag (fresh_scan\<lparr>aks_counted_flag := True\<rparr>)
   \<and> scan_step (aks_env (AksListed example_pools)) ''sub-1'' ''Production''
        managed_cluster (fresh_scan\<lparr>aks_counted_flag := True\<rparr>)
       = fresh_scan\<lparr>aks_counted_flag := True\<rparr>
   \<and> calls (scan_resources (aks_env (AksListed example_pools)) ''sub-1'' ''Production''
        [storage_account, managed_cluster, function_app, managed_cluster] fresh_scan)
       = [AzAksList ''sub-1'']
   \<and> sub_census (scan_resources (aks_env (AksListed example_pools)) ''sub-1'' ''Production''
        [storage_account, managed_cluster, function_app, managed_cluster] fresh_scan) cat_aks
       = Some 11"
proof -
  let ?rs = "[storage_account, managed_cluster, function_app, managed_cluster]"
  let ?e = "aks_env (AksListed example_pools)"
  let ?t = "fresh_scan\<lparr>aks_counted_flag := True\<rparr>"
  have f: "\<not> aks_counted_flag fresh_scan"
    by (simp add: fresh_scan_def initial_state_def)
  have ft: "aks_counted_flag ?t" by simp
  have mc: "is_cluster managed_cluster" by (rule sample_clusters(1))
  have ex: "\<exists>r\<in>set ?rs. is_cluster r" by (simp add: sample_clusters)
  have c0: "calls fresh_scan = []" by (simp add: fresh_scan_def initial_state_def)
  note t1 = aks_resolver_once_per_subscription[of managed_cluster fresh_scan ?e "''sub-1''"
      "''Production''" ?rs]
  note t2 = aks_resolver_once_per_subscription[of managed_cluster ?t ?e "''sub-1''"
      "''Production''" ?rs]
  from t1 mc f have "calls (scan_step ?e ''sub-1'' ''Production'' managed_cluster fresh_scan)
        = calls fresh_scan @ [AzAksList ''sub-1'']
      \<and> sub_census (scan_step ?e ''sub-1'' ''Production'' managed_cluster fresh_scan) cat_aks
        = Some (fst (get_configured_aks_node_count ?e ''sub-1'' ''Production'' fresh_scan))"
    by (elim conjE) simp
  then have r1: "calls (scan_step ?e ''sub-1'' ''Production'' managed_cluster fresh_scan)
        = [AzAksList ''sub-1'']
      \<and> sub_census (scan_step ?e ''sub-1'' ''Production'' managed_cluster fresh_scan) cat_aks
        = Some 11"
    unfolding example_count c0 by simp
  from t2 mc ft have r2: "scan_step ?e ''sub-1'' ''Production'' managed_cluster ?t = ?t"
    by (elim conjE) simp
  from t1 f
  have "calls (scan_resources ?e ''sub-1'' ''Production'' ?rs fresh_scan)
        = calls fresh_scan @ (if \<exists>r\<in>set ?rs. is_cluster r then [AzAksList ''sub-1''] else [])
      \<and> sub_census (scan_resources ?e ''sub-1'' ''Production'' ?rs fresh_scan) cat_aks
        = (if \<exists>r\<in>set ?rs. is_cluster r
           then Some (fst (get_configured_aks_node_count ?e ''sub-1'' ''Production'' fresh_scan))
           else sub_census fresh_scan cat_aks)"
    by (elim conjE) simp
  then have r3: "calls (scan_resources ?e ''sub-1'' ''Production'' ?rs fresh_scan)
        = [AzAksList ''sub-1'']
      \<and> sub_census (scan_resources ?e ''sub-1'' ''Production'' ?rs fresh_scan) cat_aks = Some 11"
    unfolding if_P[OF ex] example_count c0 by simp
  from mc f r1 ft r2 r3 show ?thesis by (intro conjI) simp_all
qed

text \<open>
  C6. The scan uses a descriptor's type only through its lower-cased form, so
  two descriptors whose types differ only in letter case (and whose kinds agree) have the
  same effect. Outside the four types with a branch of their own, a descriptor increments
  the category that the table gives for the exact lower-cased type, and leaves the state
  as it is when the table has no such key. A descriptor whose lower-cased type is not in the
  table and is not \<^verbatim>\<open>microsoft.web/sites\<close> leaves the whole state, counts and error list
  included, as it is.
\<close>

theorem taxonomy_lookup_exact:
  "(lower (rtype r) = lower (rtype r') \<and> kind r = kind r' \<longrightarrow>
      scan_step e subscription_id subscription_name r s
        = scan_step e subscription_id subscription_name r' s)
   \<and> (lower (rtype r) \<noteq> ''microsoft.containerservice/managedclusters''
       \<and> lower (rtype r) \<noteq> ''microsoft.web/sites''
       \<and> lower (rtype r) \<noteq> ''microsoft.compute/virtualmachines''
       \<and> lower (rtype r) \<noteq> ''microsoft.synapse/workspaces'' \<longrightarrow>
      scan_step e subscription_id subscription_name r s =
        (case map_of RESOURCE_TO_CATEGORY (lower (rtype r)) of
           None \<Rightarrow> s
         | Some category \<Rightarrow>
             s\<lparr>sub_census :=
                 (sub_census s)(category \<mapsto> dict_get (sub_census s) category 0 + 1)\<rparr>))
   \<and> (map_of RESOURCE_TO_CATEGORY (lower (rtype r)) = None
       \<and> lower (rtype r) \<noteq> ''microsoft.web/sites'' \<longrightarrow>
      scan_step e subscription_id subscription_name r s = s)"
proof (intro conjI impI)
  assume "lower (rtype r) = lower (rtype r') \<and> kind r = kind r'"
  then have t: "lower (rtype r) = lower (rtype r')" and k: "kind r = kind r'" by simp_all
  show "scan_step e subscription_id subscription_name r s
        = scan_step e subscription_id subscription_name r' s"
    unfolding scan_step_def t k by (rule refl)
next
  assume a: "lower (rtype r) \<noteq> ''microsoft.containerservice/managedclusters''
       \<and> lower (rtype r) \<noteq> ''microsoft.web/sites''
       \<and> lower (rtype r) \<noteq> ''microsoft.compute/virtualmachines''
       \<and> lower (rtype r) \<noteq> ''microsoft.synapse/workspaces''"
  then have "scan_step e subscription_id subscription_name r s =
           (case map_of RESOURCE_TO_CATEGORY (lower (rtype r)) of
              None \<Rightarrow> s | Some category \<Rightarrow> increment category s)"
    by (simp add: scan_step_lookup)
  then show "scan_step e subscription_id subscription_name r s =
        (case map_of RESOURCE_TO_CATEGORY (lower (rtype r)) of
           None \<Rightarrow> s
         | Some category \<Rightarrow>
             s\<lparr>sub_census :=
                 (sub_census s)(category \<mapsto> dict_get (sub_census s) category 0 + 1)\<rparr>)"
    by (simp add: increment_def split: option.splits)
next
  assume a: "map_of RESOURCE_TO_CATEGORY (lower (rtype r)) = None
       \<and> lower (rtype r) \<noteq> ''microsoft.web/sites''"
  have k: "map_of RESOURCE_TO_CATEGORY ''microsoft.containerservice/managedclusters'' \<noteq> None"
    "map_of RESOURCE_TO_CATEGORY ''microsoft.compute/virtualmachines'' \<noteq> None"
    by (simp_all add: RESOURCE_TO_CATEGORY_def)
  from a k have c: "lower (rtype r) \<noteq> ''microsoft.containerservice/managedclusters''"
    and v: "lower (rtype r) \<noteq> ''microsoft.compute/virtualmachines''"
    and w: "lower (rtype r) \<noteq> ''microsoft.web/sites''" by auto
  show "scan_step e subscription_id subscription_name r s = s"
  proof (cases "lower (rtype r) = ''microsoft.synapse/workspaces''")
    case True
    then show ?thesis by (simp add: scan_step_skip)
  next
    case False
    from scan_step_lookup[OF c w v False, of e subscription_id subscription_name s] a
    show ?thesis by simp
  qed
qed

lemma table_samples:
  "map_of RESOURCE_TO_CATEGORY ''microsoft.storage/storageaccounts'' = Some cat_buckets"
  "map_of RESOURCE_TO_CATEGORY ''microsoft.storage/storageaccounts/blobservices'' = None"
  "map_of RESOURCE_TO_CATEGORY ''microsoft.web/sites'' = None"
  by (simp_all add: RESOURCE_TO_CATEGORY_def)

theorem taxonomy_lookup_exact_witness:
  "lower (rtype storage_account) = lower (rtype storage_account_lowercase)
   \<and> kind storage_account = kind storage_account_lowercase
   \<and> scan_step (aks_env (AksText [])) ''sub-1'' ''Production'' storage_account fresh_scan
       = scan_step (aks_env (AksText [])) ''sub-1'' ''Production'' storage_account_lowercase
           fresh_scan
   \<and> scan_step (aks_env (AksText [])) ''sub-1'' ''Production'' storage_account fresh_scan
       = fresh_scan\<lparr>sub_census := zero_census(cat_buckets \<mapsto> 1)\<rparr>
   \<and> map_of RESOURCE_TO_CATEGORY (lower (rtype blob_service)) = None
   \<and> lower (rtype blob_service) \<noteq> ''microsoft.web/sites''
   \<and> scan_step (aks_env (AksText [])) ''sub-1'' ''Production'' blob_service fresh_scan
       = fresh_scan"
proof -
  let ?e = "aks_env (AksText [])"
  have l1: "lower (rtype storage_account) = ''microsoft.storage/storageaccounts''"
    and l2: "lower (rtype storage_account_lowercase) = ''microsoft.storage/storageaccounts''"
    and l3: "lower (rtype blob_service) = ''microsoft.storage/storageaccounts/blobservices''"
    by (simp_all add: storage_account_def storage_account_lowercase_def blob_service_def
        lower_samples)
  have k: "kind storage_account = kind storage_account_lowercase"
    by (simp add: storage_account_def storage_account_lowercase_def)
  have d: "lower (rtype storage_account) \<noteq> ''microsoft.containerservice/managedclusters''
       \<and> lower (rtype storage_account) \<noteq> ''microsoft.web/sites''
       \<and> lower (rtype storage_account) \<noteq> ''microsoft.compute/virtualmachines''
       \<and> lower (rtype storage_account) \<noteq> ''microsoft.synapse/workspaces''"
    unfolding l1 by simp
  have b: "map_of RESOURCE_TO_CATEGORY (lower (rtype blob_service)) = None
       \<and> lower (rtype blob_service) \<noteq> ''microsoft.web/sites''"
    unfolding l3 by (simp add: table_samples)
  have z: "dict_get (sub_census fresh_scan) cat_buckets 0 = 0"
    by (simp add: fresh_scan_def zero_census_def dict_get_def)
  note t1 = taxonomy_lookup_exact[of storage_account storage_account_lowercase ?e "''sub-1''"
      "''Production''" fresh_scan]
  note t2 = taxonomy_lookup_exact[of blob_service blob_service ?e "''sub-1''"
      "''Production''" fresh_scan]
  from t1 l1 l2 k have r1: "scan_step ?e ''sub-1'' ''Production'' storage_account fresh_scan
       = scan_step ?e ''sub-1'' ''Production'' storage_account_lowercase fresh_scan"
    by (elim conjE) simp
  from t1 d have "scan_step ?e ''sub-1'' ''Production'' storage_account fresh_scan =
        (case map_of RESOURCE_TO_CATEGORY (lower (rtype storage_account)) of
           None \<Rightarrow> fresh_scan
         | Some category \<Rightarrow>
             fresh_scan\<lparr>sub_census :=
                 (sub_census fresh_scan)(category \<mapsto>
                    dict_get (sub_census fresh_scan) category 0 + 1)\<rparr>)"
    by (elim conjE) simp
  then have r2: "scan_step ?e ''sub-1'' ''Production'' storage_account fresh_scan
       = fresh_scan\<lparr>sub_census := zero_census(cat_buckets \<mapsto> 1)\<rparr>"
    unfolding l1 table_samples by (simp add: z) (simp add: fresh_scan_def)
  from t2 b have r3: "scan_step ?e ''sub-1'' ''Production'' blob_service fresh_scan = fresh_scan"
    by (elim conjE) simp
  from l1 l2 have "lower (rtype storage_account) = lower (rtype storage_account_lowercase)"
    by simp
  with k r1 r2 b r3 show ?thesis by (intro conjI) simp_all
qed

text \<open>
  A function app is a descriptor whose lower-cased type is not a key of the table, and the
  scan counts it as a serverless function.
\<close>

theorem taxonomy_unmapped_counterexample:
  "map_of RESOURCE_TO_CATEGORY (lower (rtype function_app)) = None
   \<and> sub_census fresh_scan cat_functions = Some 0
   \<and> sub_census (scan_step (aks_env (AksText [])) ''sub-1'' ''Production'' function_app
         fresh_scan) cat_functions = Some 1"
proof -
  have l: "lower (rtype function_app) = ''microsoft.web/sites''"
    by (simp add: function_app_def lower_samples)
  have k: "kind function_app = Some ''functionapp,linux''" by (simp add: function_app_def)
  have z: "sub_census fresh_scan cat_functions = Some 0"
    by (simp add: fresh_scan_def zero_census_def)
  have "scan_step (aks_env (AksText [])) ''sub-1'' ''Production'' function_app fresh_scan
      = increment cat_functions fresh_scan"
    unfolding scan_step_sites[OF l] k by (simp add: lower_samples sublist_samples)
  then have "sub_census (scan_step (aks_env (AksText [])) ''sub-1'' ''Production'' function_app
         fresh_scan) cat_functions = Some 1"
    by (simp add: increment_def dict_get_def z)
  with z show ?thesis unfolding l by (simp add: table_samples)
qed

section \<open>Properties of the subscription scanner\<close>

lemma print_fields:
  "global_totals (py_print l s) = global_totals s"
  "requested_order (py_print l s) = requested_order s"
  "calls (py_print l s) = calls s"
  "aks_counted_flag (py_print l s) = aks_counted_flag s"
  "error_list (py_print l s) = error_list s"
  "sub_census (py_print l s) = sub_census s"
  "stdout (py_print l s) = stdout s @ [l]"
  by (simp_all add: py_print_def)

lemma invoke_fields:
  "global_totals (invoke c s) = global_totals s"
  "requested_order (invoke c s) = requested_order s"
  "calls (invoke c s) = calls s @ [c]"
  "aks_counted_flag (invoke c s) = aks_counted_flag s"
  "sub_census (invoke c s) = sub_census s"
  "stdout (invoke c s) = stdout s"
  by (simp_all add: invoke_def)

lemma record_error_fields:
  "global_totals (record_error m s) = global_totals s"
  "requested_order (record_error m s) = requested_order s"
  "calls (record_error m s) = calls s"
  "aks_counted_flag (record_error m s) = aks_counted_flag s"
  "sub_census (record_error m s) = sub_census s"
  "stdout (record_error m s) = stdout s"
  by (simp_all add: record_error_def)

lemma vm_scan_failed:
  assumes "vm_failure e i = Some m"
  shows "vm_scan e i n s =
           py_print ''  [ERROR] Error executing 'az vm list'.''
             (record_error (vm_error n i m) (invoke (AzVmList i) s))"
  using assms by (auto simp add: vm_failure_def vm_scan_def Let_def split: sum.splits option.splits)

lemma vm_scan_cases:
  "vm_scan e i n s =
     (case vm_failure e i of
        Some m \<Rightarrow> py_print ''  [ERROR] Error executing 'az vm list'.''
                   (record_error (vm_error n i m) (invoke (AzVmList i) s))
      | None \<Rightarrow> vm_scan e i n s)
   \<and> (vm_failure e i = None \<longrightarrow>
        (\<exists>c. vm_scan e i n s =
           (if c > 0 then (invoke (AzVmList i) s)\<lparr>sub_census := (sub_census s)(cat_vm \<mapsto> c)\<rparr>
            else invoke (AzVmList i) s)))"
proof (cases "az_vm_list e i")
  case (Inl m)
  then show ?thesis by (simp add: vm_failure_def vm_scan_def Let_def)
next
  case (Inr out)
  show ?thesis
  proof (cases "py_int (strip out)")
    case None
    with Inr show ?thesis by (simp add: vm_failure_def vm_scan_def Let_def)
  next
    case (Some c)
    with Inr have "vm_scan e i n s =
           (if c > 0 then (invoke (AzVmList i) s)\<lparr>sub_census := (sub_census s)(cat_vm \<mapsto> c)\<rparr>
            else invoke (AzVmList i) s)"
      by (simp add: vm_scan_def Let_def invoke_fields)
    then show ?thesis using Inr Some by (auto simp add: vm_failure_def)
  qed
qed

lemma vm_scan_fields:
  "global_totals (vm_scan e i n s) = global_totals s"
  "requested_order (vm_scan e i n s) = requested_order s"
  "calls (vm_scan e i n s) = calls s @ [AzVmList i]"
  "aks_counted_flag (vm_scan e i n s) = aks_counted_flag s"
  "prefix (error_list s) (error_list (vm_scan e i n s))"
proof -
  have "global_totals (vm_scan e i n s) = global_totals s
    \<and> requested_order (vm_scan e i n s) = requested_order s
    \<and> calls (vm_scan e i n s) = calls s @ [AzVmList i]
    \<and> aks_counted_flag (vm_scan e i n s) = aks_counted_flag s
    \<and> prefix (error_list s) (error_list (vm_scan e i n s))"
  proof (cases "vm_failure e i")
    case (Some m)
    show ?thesis unfolding vm_scan_failed[OF Some]
      by (simp add: print_fields record_error_fields invoke_fields)
  next
    case None
    with vm_scan_cases[of e i n s] obtain c where "vm_scan e i n s =
           (if c > 0 then (invoke (AzVmList i) s)\<lparr>sub_census := (sub_census s)(cat_vm \<mapsto> c)\<rparr>
            else invoke (AzVmList i) s)" by blast
    then show ?thesis by (simp add: invoke_fields)
  qed
  then show "global_totals (vm_scan e i n s) = global_totals s"
  "requested_order (vm_scan e i n s) = requested_order s"
  "calls (vm_scan e i n s) = calls s @ [AzVmList i]"
  "aks_counted_flag (vm_scan e i n s) = aks_counted_flag s"
  "prefix (error_list s) (error_list (vm_scan e i n s))" by simp_all
qed

lemma vm_scan_locals:
  assumes "sub_census s = sub_census t"
  shows "sub_census (vm_scan e i n s) = sub_census (vm_scan e i n t)"
proof (cases "az_vm_list e i")
  case (Inl m)
  then show ?thesis using assms
    by (simp add: vm_scan_def Let_def print_fields record_error_fields invoke_fields)
next
  case (Inr out)
  show ?thesis
  proof (cases "py_int (strip out)")
    case None
    with Inr show ?thesis using assms
      by (simp add: vm_scan_def Let_def print_fields record_error_fields invoke_fields)
  next
    case (Some c)
    with Inr show ?thesis using assms
      by (simp add: vm_scan_def Let_def invoke_fields)
  qed
qed

lemma scan_step_locals:
  assumes "sub_census s = sub_census t" and "aks_counted_flag s = aks_counted_flag t"
  shows "sub_census (scan_step e i n r s) = sub_census (scan_step e i n r t)
         \<and> aks_counted_flag (scan_step e i n r s) = aks_counted_flag (scan_step e i n r t)"
proof (cases "lower (rtype r) = ''microsoft.containerservice/managedclusters''")
  case c: True
  show ?thesis
  proof (cases "aks_counted_flag s")
    case True
    with assms c show ?thesis by (simp add: scan_step_cluster_again)
  next
    case False
    with assms have ft: "\<not> aks_counted_flag t" by simp
    show ?thesis
      unfolding scan_step_cluster_first[OF c False] scan_step_cluster_first[OF c ft]
      using assms resolver_fst_indep[of e i n s t] by simp
  qed
next
  case nc: False
  have inc: "sub_census (increment c s) = sub_census (increment c t)
      \<and> aks_counted_flag (increment c s) = aks_counted_flag (increment c t)" for c
    using assms by (simp add: increment_def)
  show ?thesis
  proof (cases "lower (rtype r) = ''microsoft.web/sites''")
    case True
    show ?thesis unfolding scan_step_sites[OF True]
      using assms inc[of cat_functions] by (simp split: option.splits)
  next
    case ns: False
    show ?thesis
    proof (cases "lower (rtype r) = ''microsoft.compute/virtualmachines''
           \<or> lower (rtype r) = ''microsoft.synapse/workspaces''")
      case True
      show ?thesis unfolding scan_step_skip[OF True] using assms by simp
    next
      case False
      then have v: "lower (rtype r) \<noteq> ''microsoft.compute/virtualmachines''"
        and w: "lower (rtype r) \<noteq> ''microsoft.synapse/workspaces''" by simp_all
      show ?thesis unfolding scan_step_lookup[OF nc ns v w]
      proof (cases "map_of RESOURCE_TO_CATEGORY (lower (rtype r))")
        case None
        then show "sub_census (case map_of RESOURCE_TO_CATEGORY (lower (rtype r)) of
              None \<Rightarrow> s | Some category \<Rightarrow> increment category s)
           = sub_census (case map_of RESOURCE_TO_CATEGORY (lower (rtype r)) of
              None \<Rightarrow> t | Some category \<Rightarrow> increment category t)
          \<and> aks_counted_flag (case map_of RESOURCE_TO_CATEGORY (lower (rtype r)) of
              None \<Rightarrow> s | Some category \<Rightarrow> increment category s)
           = aks_counted_flag (case map_of RESOURCE_TO_CATEGORY (lower (rtype r)) of
              None \<Rightarrow> t | Some category \<Rightarrow> increment category t)"
          using assms by simp
      next
        case (Some c)
        then show "sub_census (case map_of RESOURCE_TO_CATEGORY (lower (rtype r)) of
              None \<Rightarrow> s | Some category \<Rightarrow> increment category s)
           = sub_census (case map_of RESOURCE_TO_CATEGORY (lower (rtype r)) of
              None \<Rightarrow> t | Some category \<Rightarrow> increment category t)
          \<and> aks_counted_flag (case map_of RESOURCE_TO_CATEGORY (lower (rtype r)) of
              None \<Rightarrow> s | Some category \<Rightarrow> increment category s)
           = aks_counted_flag (case map_of RESOURCE_TO_CATEGORY (lower (rtype r)) of
              None \<Rightarrow> t | Some category \<Rightarrow> increment category t)"
          using inc[of c] by simp
      qed
    qed
  qed
qed

lemma scan_resources_locals:
  assumes "sub_census s = sub_census t" and "aks_counted_flag s = aks_counted_flag t"
  shows "sub_census (scan_resources e i n rs s) = sub_census (scan_resources e i n rs t)"
  using assms
proof (induction rs arbitrary: s t)
  case Nil
  then show ?case by simp
next
  case (Cons r rs)
  from scan_step_locals[OF Cons.prems, of e i n r]
  have 1: "sub_census (scan_step e i n r s) = sub_census (scan_step e i n r t)"
    and 2: "aks_counted_flag (scan_step e i n r s) = aks_counted_flag (scan_step e i n r t)"
    by simp_all
  show ?case unfolding scan_resources.simps by (rule Cons.IH[OF 1 2])
qed

lemma resource_scan_locals:
  assumes "sub_census s = sub_census t" and "aks_counted_flag s = aks_counted_flag t"
  shows "sub_census (resource_scan e i n s) = sub_census (resource_scan e i n t)"
proof (cases "az_resource_list e i")
  case (Inl m)
  then show ?thesis using assms
    by (simp add: resource_scan_def print_fields record_error_fields invoke_fields)
next
  case (Inr rs)
  have "sub_census (scan_resources e i n rs (invoke (AzResourceList i) s))
      = sub_census (scan_resources e i n rs (invoke (AzResourceList i) t))"
    by (rule scan_resources_locals) (simp_all add: assms invoke_fields)
  then show ?thesis using Inr by (simp add: resource_scan_def)
qed

lemma scan_subscription_indep:
  "sub_census (scan_subscription e a s) = sub_census (scan_subscription e a t)"
proof -
  let ?s3 = "\<lambda>u. (py_print (''Processing Account: '' @ az_name a @ '' ('' @ az_id a @ '')'')
                (py_print bar u))\<lparr>sub_census := zero_census, aks_counted_flag := False\<rparr>"
  have 1: "sub_census (vm_scan e (az_id a) (az_name a) (?s3 s))
         = sub_census (vm_scan e (az_id a) (az_name a) (?s3 t))"
    by (rule vm_scan_locals) simp
  have 2: "aks_counted_flag (vm_scan e (az_id a) (az_name a) (?s3 s))
         = aks_counted_flag (vm_scan e (az_id a) (az_name a) (?s3 t))"
    by (simp add: vm_scan_fields(4))
  show ?thesis
    unfolding scan_subscription_def Let_def
    by (rule resource_scan_locals[OF 1 2])
qed

lemma resource_scan_fields:
  "global_totals (resource_scan e i n s) = global_totals s"
  "requested_order (resource_scan e i n s) = requested_order s"
  "sub_census (resource_scan e i n s) cat_vm = sub_census s cat_vm"
  "prefix (error_list s) (error_list (resource_scan e i n s))"
  "calls (resource_scan e i n s) =
     calls s @ [AzResourceList i]
       @ (case az_resource_list e i of
            Inl _ \<Rightarrow> []
          | Inr rs \<Rightarrow> if list_ex is_cluster rs \<and> \<not> aks_counted_flag s
                      then [AzAksList i] else [])"
proof -
  let ?s1 = "invoke (AzResourceList i) s"
  have "global_totals (resource_scan e i n s) = global_totals s
    \<and> requested_order (resource_scan e i n s) = requested_order s
    \<and> sub_census (resource_scan e i n s) cat_vm = sub_census s cat_vm
    \<and> prefix (error_list s) (error_list (resource_scan e i n s))
    \<and> calls (resource_scan e i n s) =
     calls s @ [AzResourceList i]
       @ (case az_resource_list e i of
            Inl _ \<Rightarrow> []
          | Inr rs \<Rightarrow> if list_ex is_cluster rs \<and> \<not> aks_counted_flag s
                      then [AzAksList i] else [])"
  proof (cases "az_resource_list e i")
    case (Inl m)
    then show ?thesis
      by (simp add: resource_scan_def print_fields record_error_fields invoke_fields
          record_error_def py_print_def invoke_def)
  next
    case (Inr rs)
    have eq: "resource_scan e i n s = scan_resources e i n rs ?s1"
      using Inr by (simp add: resource_scan_def)
    have p: "prefix (error_list s) (error_list (scan_resources e i n rs ?s1))"
      using scan_resources_errors[of ?s1 e i n rs] by (simp add: invoke_def)
    show ?thesis
      unfolding eq using Inr p scan_resources_globals[of e i n rs ?s1]
      by (simp add: scan_resources_calls invoke_fields list_ex_iff)
  qed
  then show "global_totals (resource_scan e i n s) = global_totals s"
  "requested_order (resource_scan e i n s) = requested_order s"
  "sub_census (resource_scan e i n s) cat_vm = sub_census s cat_vm"
  "prefix (error_list s) (error_list (resource_scan e i n s))"
  "calls (resource_scan e i n s) =
     calls s @ [AzResourceList i]
       @ (case az_resource_list e i of
            Inl _ \<Rightarrow> []
          | Inr rs \<Rightarrow> if list_ex is_cluster rs \<and> \<not> aks_counted_flag s
                      then [AzAksList i] else [])"
    by simp_all
qed

lemma scan_subscription_fields:
  "global_totals (scan_subscription e a s) = global_totals s"
  "requested_order (scan_subscription e a s) = requested_order s"
  "calls (scan_subscription e a s) = calls s @ account_calls e a"
  "prefix (error_list s) (error_list (scan_subscription e a s))"
proof -
  let ?s3 = "(py_print (''Processing Account: '' @ az_name a @ '' ('' @ az_id a @ '')'')
                (py_print bar s))\<lparr>sub_census := zero_census, aks_counted_flag := False\<rparr>"
  let ?s4 = "vm_scan e (az_id a) (az_name a) ?s3"
  have eq: "scan_subscription e a s = resource_scan e (az_id a) (az_name a) ?s4"
    by (simp add: scan_subscription_def Let_def)
  show "global_totals (scan_subscription e a s) = global_totals s"
    unfolding eq by (simp add: resource_scan_fields vm_scan_fields print_fields)
  show "requested_order (scan_subscription e a s) = requested_order s"
    unfolding eq by (simp add: resource_scan_fields vm_scan_fields print_fields)
  show "calls (scan_subscription e a s) = calls s @ account_calls e a"
    unfolding eq
    by (simp add: resource_scan_fields vm_scan_fields print_fields account_calls_def
        split: sum.splits)
  have "prefix (error_list s) (error_list ?s4)"
    using vm_scan_fields(5)[of ?s3 e "az_id a" "az_name a"] by (simp add: print_fields)
  also have "prefix (error_list ?s4) (error_list (resource_scan e (az_id a) (az_name a) ?s4))"
    by (rule resource_scan_fields(4))
  finally show "prefix (error_list s) (error_list (scan_subscription e a s))"
    unfolding eq .
qed

lemma scan_subscription_vm_failure:
  assumes "vm_failure e (az_id a) = Some m"
  shows "prefix (error_list s @ [vm_error (az_name a) (az_id a) m])
           (error_list (scan_subscription e a s))"
    and "sub_census (scan_subscription e a s) cat_vm = Some 0"
    and "sub_census (scan_subscription e a s) =
           sub_census (resource_scan e (az_id a) (az_name a)
             (s\<lparr>sub_census := zero_census, aks_counted_flag := False\<rparr>))"
proof -
  define s3 where "s3 = (py_print (''Processing Account: '' @ az_name a @ '' ('' @ az_id a @ '')'')
                (py_print bar s))\<lparr>sub_census := zero_census, aks_counted_flag := False\<rparr>"
  define s4 where "s4 = vm_scan e (az_id a) (az_name a) s3"
  have eq: "scan_subscription e a s = resource_scan e (az_id a) (az_name a) s4"
    by (simp add: scan_subscription_def Let_def s3_def s4_def)
  have s3: "error_list s3 = error_list s" "sub_census s3 = zero_census" "\<not> aks_counted_flag s3"
    by (simp_all add: s3_def print_fields)
  have s4: "s4 = py_print ''  [ERROR] Error executing 'az vm list'.''
             (record_error (vm_error (az_name a) (az_id a) m) (invoke (AzVmList (az_id a)) s3))"
    unfolding s4_def by (rule vm_scan_failed[OF assms])
  have e4: "error_list s4 = error_list s @ [vm_error (az_name a) (az_id a) m]"
    and c4: "sub_census s4 = zero_census" and f4: "aks_counted_flag s4 = False"
    by (simp_all add: s4 s3 print_fields record_error_fields invoke_fields)
  from resource_scan_fields(4)[of s4 e "az_id a" "az_name a"]
  show "prefix (error_list s @ [vm_error (az_name a) (az_id a) m])
           (error_list (scan_subscription e a s))"
    unfolding eq e4 .
  have "sub_census (scan_subscription e a s) cat_vm = sub_census s4 cat_vm"
    unfolding eq by (rule resource_scan_fields(3))
  then show "sub_census (scan_subscription e a s) cat_vm = Some 0"
    unfolding c4 by (simp add: zero_census_def)
  show "sub_census (scan_subscription e a s) =
           sub_census (resource_scan e (az_id a) (az_name a)
             (s\<lparr>sub_census := zero_census, aks_counted_flag := False\<rparr>))"
    unfolding eq by (rule resource_scan_locals) (simp_all add: c4 f4)
qed

section \<open>Properties of the aggregator and the run\<close>

lemma accumulate_ok:
  assumes "set cs \<subseteq> dom (global_totals s)" and "distinct cs"
  shows "\<exists>s'. accumulate cs s = Inr s'
     \<and> (\<forall>c. global_totals s' c =
            (if c \<in> set cs
             then map_option (\<lambda>g. g + dict_get (sub_census s) c 0) (global_totals s c)
             else global_totals s c))
     \<and> stdout s' = stdout s @ map (\<lambda>c. census_line c (dict_get (sub_census s) c 0)) cs
     \<and> error_list s' = error_list s \<and> calls s' = calls s
     \<and> requested_order s' = requested_order s \<and> sub_census s' = sub_census s"
  using assms
proof (induction cs arbitrary: s)
  case Nil
  then show ?case by simp
next
  case (Cons c cs)
  from Cons.prems obtain g where g: "global_totals s c = Some g" by auto
  define s2 where "s2 = (py_print (census_line c (dict_get (sub_census s) c 0)) s)
      \<lparr>global_totals := (global_totals s)(c \<mapsto> g + dict_get (sub_census s) c 0)\<rparr>"
  have step: "accumulate (c # cs) s = accumulate cs s2"
    using g by (simp add: s2_def Let_def print_fields census_line_def)
  have f2: "global_totals s2 = (global_totals s)(c \<mapsto> g + dict_get (sub_census s) c 0)"
    "stdout s2 = stdout s @ [census_line c (dict_get (sub_census s) c 0)]"
    "error_list s2 = error_list s" "calls s2 = calls s"
    "requested_order s2 = requested_order s" "sub_census s2 = sub_census s"
    by (simp_all add: s2_def print_fields)
  have d: "set cs \<subseteq> dom (global_totals s2)" "distinct cs"
    using Cons.prems by (auto simp: f2)
  from Cons.IH[OF d] obtain s' where s': "accumulate cs s2 = Inr s'"
    and gt: "\<And>k. global_totals s' k =
            (if k \<in> set cs
             then map_option (\<lambda>g. g + dict_get (sub_census s2) k 0) (global_totals s2 k)
             else global_totals s2 k)"
    and rest: "stdout s' = stdout s2 @ map (\<lambda>c. census_line c (dict_get (sub_census s2) c 0)) cs"
      "error_list s' = error_list s2" "calls s' = calls s2"
      "requested_order s' = requested_order s2" "sub_census s' = sub_census s2"
    by blast
  have nc: "c \<notin> set cs" using Cons.prems by simp
  have "\<forall>k. global_totals s' k =
            (if k \<in> set (c # cs)
             then map_option (\<lambda>g. g + dict_get (sub_census s) k 0) (global_totals s k)
             else global_totals s k)"
    using nc g by (auto simp add: gt f2)
  then show ?case
    unfolding step using s' rest by (simp add: f2)
qed

lemma canonical_distinct: "distinct canonical_order"
  by (simp add: canonical_order_def)

lemma process_account_disabled: "\<not> enabled a \<Longrightarrow> process_account e a s = Inr s"
  by (simp add: process_account_def enabled_def)

lemma process_account_ok:
  assumes "enabled a" and "set canonical_order \<subseteq> dom (global_totals s)"
  shows "\<exists>s'. process_account e a s = Inr s'
     \<and> (\<forall>c. global_totals s' c =
            (if c \<in> set canonical_order
             then map_option (\<lambda>g. g + subscription_count e a c) (global_totals s c)
             else global_totals s c))
     \<and> stdout s' = stdout (scan_subscription e a s)
          @ [CHR 0x0A # ''--- Subscription Resource Census ---'']
          @ map (\<lambda>c. census_line c (subscription_count e a c)) canonical_order @ [bar]
     \<and> error_list s' = error_list (scan_subscription e a s)
     \<and> calls s' = calls s @ account_calls e a
     \<and> requested_order s' = Some canonical_order"
proof -
  define s7 where "s7 = (py_print (CHR 0x0A # ''--- Subscription Resource Census ---'')
      (scan_subscription e a s))\<lparr>requested_order := Some canonical_order\<rparr>"
  have f7: "global_totals s7 = global_totals s"
    "stdout s7 = stdout (scan_subscription e a s)
        @ [CHR 0x0A # ''--- Subscription Resource Census ---'']"
    "error_list s7 = error_list (scan_subscription e a s)"
    "calls s7 = calls s @ account_calls e a"
    "requested_order s7 = Some canonical_order"
    "sub_census s7 = sub_census (scan_subscription e a s)"
    by (simp_all add: s7_def print_fields scan_subscription_fields)
  have cnt: "dict_get (sub_census (scan_subscription e a s)) c 0 = subscription_count e a c" for c
    unfolding subscription_count_def
    using scan_subscription_indep[of e a s initial_state] by simp
  have d: "set canonical_order \<subseteq> dom (global_totals s7)"
    using assms(2) by (simp add: f7)
  from accumulate_ok[OF d canonical_distinct] obtain s8 where
    s8: "accumulate canonical_order s7 = Inr s8"
    and gt: "\<And>c. global_totals s8 c =
            (if c \<in> set canonical_order
             then map_option (\<lambda>g. g + dict_get (sub_census s7) c 0) (global_totals s7 c)
             else global_totals s7 c)"
    and rest: "stdout s8 = stdout s7
        @ map (\<lambda>c. census_line c (dict_get (sub_census s7) c 0)) canonical_order"
      "error_list s8 = error_list s7" "calls s8 = calls s7"
      "requested_order s8 = requested_order s7"
    by blast
  have pa: "process_account e a s = Inr (py_print bar s8)"
    using assms(1) s8 by (simp add: process_account_def enabled_def Let_def s7_def)
  show ?thesis
    unfolding pa
    by (simp add: print_fields gt rest f7 cnt)
qed

lemma zero_census_dom: "set canonical_order \<subseteq> dom zero_census"
  by (simp add: canonical_order_def zero_census_def)

lemma for_accounts_ok:
  assumes "set canonical_order \<subseteq> dom (global_totals s)"
  shows "\<exists>s'. for_accounts e accounts s = Inr s'
     \<and> (\<forall>c. global_totals s' c =
            (if c \<in> set canonical_order
             then map_option
                    (\<lambda>g. g + (\<Sum>a\<leftarrow>filter enabled accounts. subscription_count e a c))
                    (global_totals s c)
             else global_totals s c))
     \<and> calls s' = calls s @ concat (map (account_calls e) (filter enabled accounts))
     \<and> prefix (error_list s) (error_list s')
     \<and> requested_order s' =
          (if list_ex enabled accounts then Some canonical_order else requested_order s)"
  using assms
proof (induction accounts arbitrary: s)
  case Nil
  then show ?case by (simp add: option.map_ident)
next
  case (Cons a accounts)
  show ?case
  proof (cases "enabled a")
    case False
    then have st: "for_accounts e (a # accounts) s = for_accounts e accounts s"
      by (simp add: process_account_disabled)
    have fe: "filter enabled (a # accounts) = filter enabled accounts"
      "list_ex enabled (a # accounts) = list_ex enabled accounts"
      using False by simp_all
    show ?thesis unfolding st fe by (rule Cons.IH[OF Cons.prems])
  next
    case True
    from process_account_ok[OF True Cons.prems, of e] obtain s1 where
      s1: "process_account e a s = Inr s1"
      and gt1: "\<And>c. global_totals s1 c =
            (if c \<in> set canonical_order
             then map_option (\<lambda>g. g + subscription_count e a c) (global_totals s c)
             else global_totals s c)"
      and e1: "error_list s1 = error_list (scan_subscription e a s)"
      and c1: "calls s1 = calls s @ account_calls e a"
      and r1: "requested_order s1 = Some canonical_order"
      by blast
    have st: "for_accounts e (a # accounts) s = for_accounts e accounts s1"
      using s1 by simp
    have d1: "set canonical_order \<subseteq> dom (global_totals s1)"
    proof
      fix c assume c: "c \<in> set canonical_order"
      with Cons.prems obtain g where "global_totals s c = Some g" by auto
      with c show "c \<in> dom (global_totals s1)" by (simp add: gt1 domIff)
    qed
    from Cons.IH[OF d1] obtain s' where
      s': "for_accounts e accounts s1 = Inr s'"
      and gt: "\<And>c. global_totals s' c =
            (if c \<in> set canonical_order
             then map_option
                    (\<lambda>g. g + (\<Sum>a\<leftarrow>filter enabled accounts. subscription_count e a c))
                    (global_totals s1 c)
             else global_totals s1 c)"
      and cs: "calls s' = calls s1 @ concat (map (account_calls e) (filter enabled accounts))"
      and es: "prefix (error_list s1) (error_list s')"
      and rs: "requested_order s' =
          (if list_ex enabled accounts then Some canonical_order else requested_order s1)"
      by blast
    have g: "\<forall>c. global_totals s' c =
            (if c \<in> set canonical_order
             then map_option
                    (\<lambda>g. g + (\<Sum>a\<leftarrow>filter enabled (a # accounts). subscription_count e a c))
                    (global_totals s c)
             else global_totals s c)"
      using True by (simp add: gt gt1 option.map_comp comp_def add.assoc)
    have "prefix (error_list s) (error_list s1)"
      unfolding e1 by (rule scan_subscription_fields(4))
    from this es have p: "prefix (error_list s) (error_list s')"
      by (rule prefix_order.trans)
    have r: "requested_order s' =
          (if list_ex enabled (a # accounts) then Some canonical_order else requested_order s)"
      using True by (simp add: rs r1)
    have c: "calls s' = calls s @ concat (map (account_calls e) (filter enabled (a # accounts)))"
      using True by (simp add: cs c1)
    show ?thesis unfolding st using s' g p r c by blast
  qed
qed

lemma grand_totals_ok:
  assumes "\<forall>c\<in>set cs. global_totals s c = Some (g c)"
  shows "grand_totals cs s = Inr (s\<lparr>stdout := stdout s @ map (\<lambda>c. grand_total_line c (g c)) cs\<rparr>)"
  using assms
proof (induction cs arbitrary: s)
  case Nil
  then show ?case by simp
next
  case (Cons c cs)
  define s1 where "s1 = py_print (grand_total_line c (g c)) s"
  have f1: "global_totals s1 = global_totals s" "stdout s1 = stdout s @ [grand_total_line c (g c)]"
    by (simp_all add: s1_def print_fields)
  from Cons.prems have c: "global_totals s c = Some (g c)" by simp
  have st: "grand_totals (c # cs) s = grand_totals cs s1"
    using c by (simp add: s1_def grand_total_line_def)
  have "\<forall>c\<in>set cs. global_totals s1 c = Some (g c)" using Cons.prems by (simp add: f1)
  from Cons.IH[OF this] show ?case
    unfolding st by (simp add: f1) (simp add: s1_def py_print_def)
qed

lemma run_totals:
  "\<exists>s'. for_accounts e accounts initial_state = Inr s'
     \<and> (\<forall>c\<in>set canonical_order. global_totals s' c = Some (grand_total e accounts c))
     \<and> calls s' = concat (map (account_calls e) (filter enabled accounts))
     \<and> requested_order s' = (if list_ex enabled accounts then Some canonical_order else None)"
proof -
  have d: "set canonical_order \<subseteq> dom (global_totals initial_state)"
    using zero_census_dom by (simp add: initial_state_def)
  from for_accounts_ok[OF d, of e accounts] obtain s' where
    s': "for_accounts e accounts initial_state = Inr s'"
    and gt: "\<And>c. global_totals s' c =
            (if c \<in> set canonical_order
             then map_option
                    (\<lambda>g. g + (\<Sum>a\<leftarrow>filter enabled accounts. subscription_count e a c))
                    (global_totals initial_state c)
             else global_totals initial_state c)"
    and cs: "calls s' = calls initial_state @ concat (map (account_calls e) (filter enabled accounts))"
    and rs: "requested_order s' =
          (if list_ex enabled accounts then Some canonical_order else requested_order initial_state)"
    by blast
  have z: "global_totals initial_state c = Some 0" if "c \<in> set canonical_order" for c
    using that by (auto simp add: initial_state_def zero_census_def canonical_order_def)
  have "\<forall>c\<in>set canonical_order. global_totals s' c = Some (grand_total e accounts c)"
    by (simp add: gt z grand_total_def)
  moreover have "calls s' = concat (map (account_calls e) (filter enabled accounts))"
    using cs by (simp add: initial_state_def)
  moreover have "requested_order s' = (if list_ex enabled accounts then Some canonical_order else None)"
    using rs by (simp add: initial_state_def)
  ultimately show ?thesis using s' by blast
qed

lemma run_accounts_ok:
  assumes "list_ex enabled accounts"
  shows "\<exists>s' s''. for_accounts e accounts initial_state = Inr s' \<and> run_accounts e accounts = Inr s''
     \<and> stdout s'' = stdout s'
          @ [CHR 0x0A # bar, ''--- GRAND TOTALS ACROSS ALL ENABLED SUBSCRIPTIONS ---'']
          @ map (\<lambda>c. grand_total_line c (grand_total e accounts c)) canonical_order
          @ [bar] @ closing_notes
          @ (if error_list s' = [] then []
             else [CHR 0x0A # bar, ''Errors Encountered:''] @ error_list s' @ [bar])
     \<and> error_list s'' = error_list s' \<and> calls s'' = calls s'"
proof -
  from run_totals[of e accounts] assms obtain s' where
    s': "for_accounts e accounts initial_state = Inr s'"
    and gt: "\<forall>c\<in>set canonical_order. global_totals s' c = Some (grand_total e accounts c)"
    and rs: "requested_order s' = Some canonical_order"
    by auto
  define s1 where "s1 = py_print ''--- GRAND TOTALS ACROSS ALL ENABLED SUBSCRIPTIONS ---''
                      (py_print (CHR 0x0A # bar) s')"
  have f1: "global_totals s1 = global_totals s'" "requested_order s1 = Some canonical_order"
    "stdout s1 = stdout s' @ [CHR 0x0A # bar, ''--- GRAND TOTALS ACROSS ALL ENABLED SUBSCRIPTIONS ---'']"
    "error_list s1 = error_list s'" "calls s1 = calls s'"
    by (simp_all add: s1_def print_fields rs)
  have "\<forall>c\<in>set canonical_order. global_totals s1 c = Some (grand_total e accounts c)"
    using gt by (simp add: f1)
  from grand_totals_ok[OF this]
  have g: "grand_totals canonical_order s1 =
      Inr (s1\<lparr>stdout := stdout s1 @ map (\<lambda>c. grand_total_line c (grand_total e accounts c))
                                        canonical_order\<rparr>)" .
  have m: "run_accounts e accounts = Inr (error_block
      ((s1\<lparr>stdout := stdout s1 @ map (\<lambda>c. grand_total_line c (grand_total e accounts c))
                                        canonical_order\<rparr>)
        \<lparr>stdout := stdout s1 @ map (\<lambda>c. grand_total_line c (grand_total e accounts c))
                                        canonical_order @ [bar] @ closing_notes\<rparr>))"
    using s' g f1(2) by (simp add: run_accounts_def Let_def s1_def[symmetric])
  show ?thesis
    unfolding m using s' by (simp add: error_block_def f1)
qed

lemma run_accounts_none_enabled:
  assumes "\<not> list_ex enabled accounts"
  shows "run_accounts e accounts = Inl ''NameError: name 'requested_order' is not defined''"
proof -
  from run_totals[of e accounts] assms obtain s' where
    s': "for_accounts e accounts initial_state = Inr s'"
    and rs: "requested_order s' = None"
    by auto
  show ?thesis using s' rs by (simp add: run_accounts_def Let_def print_fields)
qed

lemma sample_counts:
  "subscription_count sample_env account_a cat_vm = 3"
  "subscription_count sample_env account_b cat_vm = 5"
  by code_simp+

lemma sample_failure:
  "vm_failure sample_env (az_id account_c) = Some sample_vm_error"
  by code_simp

lemma sample_bucket:
  "sub_census (resource_scan sample_env (az_id account_c) (az_name account_c)
             (initial_state\<lparr>sub_census := zero_census, aks_counted_flag := False\<rparr>)) cat_buckets
     = Some 1"
  by code_simp

text \<open>
  C8. When the VM listing of a subscription fails (the command raises, or its
  text is not an integer), the scan of that subscription appends the error record of the VM
  listing, ends with a Virtual Machines count of 0, and still runs the resource scan: the
  resource listing is invoked, and the census is the one the resource scan computes from
  the zero census. Whatever the VM, resource and cluster listings do, the loop over the
  accounts ends normally and has made the VM and the resource listing of every enabled
  subscription, in order; and once the account list has been fetched, a script with an
  enabled subscription ends normally.
\<close>

theorem fetch_failure_not_fatal:
  "(vm_failure e (az_id a) = Some m \<longrightarrow>
      prefix (error_list s @ [vm_error (az_name a) (az_id a) m])
        (error_list (scan_subscription e a s))
      \<and> sub_census (scan_subscription e a s) cat_vm = Some 0
      \<and> calls (scan_subscription e a s) = calls s @ account_calls e a
      \<and> sub_census (scan_subscription e a s) =
           sub_census (resource_scan e (az_id a) (az_name a)
             (s\<lparr>sub_census := zero_census, aks_counted_flag := False\<rparr>)))
   \<and> (\<exists>s'. for_accounts e accounts initial_state = Inr s'
         \<and> calls s' = concat (map (account_calls e) (filter enabled accounts)))
   \<and> (az_account_list e = Inr accounts \<and> list_ex enabled accounts \<longrightarrow>
        (\<exists>s''. main e = Inr s''))"
proof (intro conjI impI)
  assume f: "vm_failure e (az_id a) = Some m"
  show "prefix (error_list s @ [vm_error (az_name a) (az_id a) m])
        (error_list (scan_subscription e a s))"
    by (rule scan_subscription_vm_failure(1)[OF f])
  show "sub_census (scan_subscription e a s) cat_vm = Some 0"
    by (rule scan_subscription_vm_failure(2)[OF f])
  show "calls (scan_subscription e a s) = calls s @ account_calls e a"
    by (rule scan_subscription_fields(3))
  show "sub_census (scan_subscription e a s) =
           sub_census (resource_scan e (az_id a) (az_name a)
             (s\<lparr>sub_census := zero_census, aks_counted_flag := False\<rparr>))"
    by (rule scan_subscription_vm_failure(3)[OF f])
next
  from run_totals[of e accounts]
  show "\<exists>s'. for_accounts e accounts initial_state = Inr s'
         \<and> calls s' = concat (map (account_calls e) (filter enabled accounts))"
    by blast
next
  assume "az_account_list e = Inr accounts \<and> list_ex enabled accounts"
  then have l: "az_account_list e = Inr accounts" and en: "list_ex enabled accounts"
    by simp_all
  from run_accounts_ok[OF en, of e] show "\<exists>s''. main e = Inr s''"
    unfolding main_def l by auto
qed

theorem fetch_failure_not_fatal_witness:
  "vm_failure sample_env (az_id account_c) = Some sample_vm_error
   \<and> prefix [vm_error ''Development'' ''sub-3'' sample_vm_error]
        (error_list (scan_subscription sample_env account_c initial_state))
   \<and> sub_census (scan_subscription sample_env account_c initial_state) cat_vm = Some 0
   \<and> sub_census (scan_subscription sample_env account_c initial_state) cat_buckets = Some 1
   \<and> calls (scan_subscription sample_env account_c initial_state)
       = [AzVmList ''sub-3'', AzResourceList ''sub-3'']
   \<and> list_ex enabled [account_c, account_off, account_a]
   \<and> az_account_list sample_env = Inr [account_c, account_off, account_a]
   \<and> (\<exists>s''. main sample_env = Inr s'')
   \<and> (\<exists>s'. for_accounts sample_env [account_c, account_off, account_a] initial_state = Inr s'
         \<and> calls s' = [AzVmList ''sub-3'', AzResourceList ''sub-3'',
                        AzVmList ''sub-1'', AzResourceList ''sub-1''])"
proof -
  note t = fetch_failure_not_fatal[of sample_env account_c "sample_vm_error"
      initial_state "[account_c, account_off, account_a]"]
  have en: "list_ex enabled [account_c, account_off, account_a]"
    by (simp add: enabled_def account_c_def)
  have ids: "az_id account_c = ''sub-3''" "az_name account_c = ''Development''"
    by (simp_all add: account_c_def)
  have ac: "account_calls sample_env account_c = [AzVmList ''sub-3'', AzResourceList ''sub-3'']"
    by code_simp
  have tr: "concat (map (account_calls sample_env) (filter enabled [account_c, account_off, account_a]))
      = [AzVmList ''sub-3'', AzResourceList ''sub-3'', AzVmList ''sub-1'', AzResourceList ''sub-1'']"
    by code_simp
  have e0: "error_list initial_state = []" "calls initial_state = []"
    by (simp_all add: initial_state_def)
  from t sample_failure have
    1: "prefix (error_list initial_state
           @ [vm_error (az_name account_c) (az_id account_c) sample_vm_error])
        (error_list (scan_subscription sample_env account_c initial_state))"
    and 2: "sub_census (scan_subscription sample_env account_c initial_state) cat_vm = Some 0"
    and 3: "calls (scan_subscription sample_env account_c initial_state)
       = calls initial_state @ account_calls sample_env account_c"
    and 4: "sub_census (scan_subscription sample_env account_c initial_state) =
           sub_census (resource_scan sample_env (az_id account_c) (az_name account_c)
             (initial_state\<lparr>sub_census := zero_census, aks_counted_flag := False\<rparr>))"
    by blast+
  from t have 5: "\<exists>s'. for_accounts sample_env [account_c, account_off, account_a] initial_state
         = Inr s'
         \<and> calls s' = concat (map (account_calls sample_env)
              (filter enabled [account_c, account_off, account_a]))"
    by blast
  have al: "az_account_list sample_env = Inr [account_c, account_off, account_a]"
    by (simp add: sample_env_def)
  from t al en have 6: "\<exists>s''. main sample_env = Inr s''"
    by blast
  have p1: "prefix [vm_error ''Development'' ''sub-3'' sample_vm_error]
        (error_list (scan_subscription sample_env account_c initial_state))"
    using 1 unfolding e0 ids by simp
  have p3: "calls (scan_subscription sample_env account_c initial_state)
       = [AzVmList ''sub-3'', AzResourceList ''sub-3'']"
    using 3 unfolding e0 ac by simp
  have p4: "sub_census (scan_subscription sample_env account_c initial_state) cat_buckets = Some 1"
    unfolding 4 by (rule sample_bucket)
  from sample_failure p1 2 p4 p3 en al 6 5[unfolded tr] show ?thesis
    by (intro conjI)
qed

text \<open>
  The account listing is a fetch whose failure does end the run: when the text of
  \<^verbatim>\<open>az account list\<close> is not JSON, the script ends with the exception of
  \<^verbatim>\<open>json.loads\<close>.
\<close>

theorem account_list_failure_counterexample:
  "main logged_out_env = Inl ''Expecting value: line 1 column 1 (char 0)''"
  by (simp add: main_def logged_out_env_def)

text \<open>
  C5. After the loop over the accounts, the global total of each of the seven categories is
  the sum of that category's counts over the enabled subscriptions. One pass for an enabled
  subscription adds, for each category, that subscription's count of the same category to
  its total and nothing else, and prints the seven counts in the canonical order, which it
  also binds to \<open>requested_order\<close>; the grand totals are printed in the same order, each
  line carrying the sum of its category.
\<close>

theorem grand_totals_are_sums:
  "(\<exists>s'. for_accounts e accounts initial_state = Inr s'
      \<and> (\<forall>c\<in>set canonical_order.
            global_totals s' c = Some (grand_total e accounts c)))
   \<and> (enabled a \<and> set canonical_order \<subseteq> dom (global_totals s) \<longrightarrow>
        (\<exists>s'. process_account e a s = Inr s'
           \<and> requested_order s' = Some canonical_order
           \<and> stdout s' = stdout (scan_subscription e a s)
                @ [CHR 0x0A # ''--- Subscription Resource Census ---'']
                @ map (\<lambda>c. census_line c (subscription_count e a c)) canonical_order @ [bar]
           \<and> (\<forall>c. global_totals s' c =
                  (if c \<in> set canonical_order
                   then map_option (\<lambda>g. g + subscription_count e a c) (global_totals s c)
                   else global_totals s c))))
   \<and> (list_ex enabled accounts \<longrightarrow>
        (\<exists>s' s''. for_accounts e accounts initial_state = Inr s'
           \<and> run_accounts e accounts = Inr s''
           \<and> stdout s'' = stdout s'
                @ [CHR 0x0A # bar, ''--- GRAND TOTALS ACROSS ALL ENABLED SUBSCRIPTIONS ---'']
                @ map (\<lambda>c. grand_total_line c (grand_total e accounts c)) canonical_order
                @ [bar] @ closing_notes
                @ (if error_list s' = [] then []
                   else [CHR 0x0A # bar, ''Errors Encountered:''] @ error_list s' @ [bar])))"
proof (intro conjI impI)
  from run_totals[of e accounts]
  show "\<exists>s'. for_accounts e accounts initial_state = Inr s'
      \<and> (\<forall>c\<in>set canonical_order.
            global_totals s' c = Some (grand_total e accounts c))"
    by blast
next
  assume "enabled a \<and> set canonical_order \<subseteq> dom (global_totals s)"
  then have a: "enabled a" and d: "set canonical_order \<subseteq> dom (global_totals s)" by simp_all
  from process_account_ok[OF a d, of e]
  show "\<exists>s'. process_account e a s = Inr s'
           \<and> requested_order s' = Some canonical_order
           \<and> stdout s' = stdout (scan_subscription e a s)
                @ [CHR 0x0A # ''--- Subscription Resource Census ---'']
                @ map (\<lambda>c. census_line c (subscription_count e a c)) canonical_order @ [bar]
           \<and> (\<forall>c. global_totals s' c =
                  (if c \<in> set canonical_order
                   then map_option (\<lambda>g. g + subscription_count e a c) (global_totals s c)
                   else global_totals s c))"
    by blast
next
  assume "list_ex enabled accounts"
  from run_accounts_ok[OF this, of e]
  show "\<exists>s' s''. for_accounts e accounts initial_state = Inr s'
           \<and> run_accounts e accounts = Inr s''
           \<and> stdout s'' = stdout s'
                @ [CHR 0x0A # bar, ''--- GRAND TOTALS ACROSS ALL ENABLED SUBSCRIPTIONS ---'']
                @ map (\<lambda>c. grand_total_line c (grand_total e accounts c)) canonical_order
                @ [bar] @ closing_notes
                @ (if error_list s' = [] then []
                   else [CHR 0x0A # bar, ''Errors Encountered:''] @ error_list s' @ [bar])"
    by blast
qed

theorem grand_totals_are_sums_witness:
  "cat_vm \<in> set canonical_order
   \<and> subscription_count sample_env account_a cat_vm = 3
   \<and> subscription_count sample_env account_b cat_vm = 5
   \<and> (\<exists>s'. for_accounts sample_env [account_a, account_off, account_b] initial_state = Inr s'
         \<and> global_totals s' cat_vm = Some 8)
   \<and> enabled account_a \<and> set canonical_order \<subseteq> dom (global_totals initial_state)
   \<and> (\<exists>s'. process_account sample_env account_a initial_state = Inr s'
         \<and> requested_order s' = Some canonical_order
         \<and> global_totals s' cat_vm = Some 3
         \<and> global_totals s' cat_aks = Some 0)
   \<and> list_ex enabled [account_a, account_off, account_b]
   \<and> (\<exists>s''. run_accounts sample_env [account_a, account_off, account_b] = Inr s'')"
proof -
  note t = grand_totals_are_sums[of sample_env "[account_a, account_off, account_b]"
      account_a initial_state]
  have m: "cat_vm \<in> set canonical_order" "cat_aks \<in> set canonical_order"
    by (simp_all add: canonical_order_def)
  have en: "enabled account_a" "list_ex enabled [account_a, account_off, account_b]"
    by (simp_all add: enabled_def account_a_def)
  have d: "set canonical_order \<subseteq> dom (global_totals initial_state)"
    using zero_census_dom by (simp add: initial_state_def)
  have g: "grand_total sample_env [account_a, account_off, account_b] cat_vm = 8"
    by (simp add: grand_total_def enabled_def account_a_def[THEN arg_cong, of az_state]
        account_b_def[THEN arg_cong, of az_state] account_off_def[THEN arg_cong, of az_state]
        sample_counts)
  have z: "subscription_count sample_env account_a cat_aks = 0" by code_simp
  have i: "global_totals initial_state cat_vm = Some 0" "global_totals initial_state cat_aks = Some 0"
    by (simp_all add: initial_state_def zero_census_def)
  from t obtain s1 where s1: "for_accounts sample_env [account_a, account_off, account_b]
      initial_state = Inr s1"
    and g1: "\<forall>c\<in>set canonical_order.
            global_totals s1 c = Some (grand_total sample_env [account_a, account_off, account_b] c)"
    by blast
  from g1 m(1) g have "global_totals s1 cat_vm = Some 8" by simp
  with s1 have r1: "\<exists>s'. for_accounts sample_env [account_a, account_off, account_b]
      initial_state = Inr s' \<and> global_totals s' cat_vm = Some 8" by blast
  from t en(1) d obtain s2 where s2: "process_account sample_env account_a initial_state = Inr s2"
    and o2: "requested_order s2 = Some canonical_order"
    and g2: "\<forall>c. global_totals s2 c =
                  (if c \<in> set canonical_order
                   then map_option (\<lambda>g. g + subscription_count sample_env account_a c)
                          (global_totals initial_state c)
                   else global_totals initial_state c)"
    by blast
  have "global_totals s2 cat_vm = Some 3" "global_totals s2 cat_aks = Some 0"
    using m unfolding g2[rule_format] by (simp_all add: i sample_counts z)
  with s2 o2 have r2: "\<exists>s'. process_account sample_env account_a initial_state = Inr s'
         \<and> requested_order s' = Some canonical_order
         \<and> global_totals s' cat_vm = Some 3
         \<and> global_totals s' cat_aks = Some 0" by blast
  from t en(2) have r3: "\<exists>s''. run_accounts sample_env [account_a, account_off, account_b] = Inr s''"
    by blast
  from m(1) sample_counts r1 en(1) d r2 en(2) r3 show ?thesis
    by (intro conjI)
qed

end
